theory Spec2Isabelle
  imports Complex_Main "HOL-Library.Multiset" "HOL-Library.AList"
begin

section \<open>Python values and errors\<close>

text \<open>
  Floating-point numbers are modelled by the reals; integers by \<open>int\<close> and \<open>nat\<close>.
  The arithmetic is exact, except for the bounds of the bins of the histogram, which
  are compared with the data: there every operation rounds its exact result with a
  function \<open>fl\<close>, which is \<open>exact\<close> in exact arithmetic and \<open>float64\<close> in the
  arithmetic of the program. Every exception the modelled code can raise is a value of
  \<open>py_error\<close>, and a function that can raise returns \<open>py_error + 'a\<close>.
  \<open>TimeoutError key\<close> stands for the exception raised by \<open>check_out_parser\<close>,
  whose message is \<open>Missing type or center for {key}\<close>.
\<close>

datatype py_error =
    ValueError
  | ZeroDivisionError
  | KeyError
  | IndexError
  | TypeError
  | AttributeError
  | OverflowError
  | TimeoutError nat

text \<open>
  The rounding of exact arithmetic, and the rounding of a \<open>float64\<close> operation: to the
  nearest number with a significand of 53 bits, ties to the even significand
  (overflow and underflow apart: the exponent is not bounded).
\<close>

definition exact :: "real \<Rightarrow> real" where
  "exact x = x"

definition round_half_even :: "real \<Rightarrow> int" where
  "round_half_even x =
     (let f = \<lfloor>x\<rfloor>; r = x - of_int f
      in if r < 1 / 2 then f else if 1 / 2 < r then f + 1 else if even f then f else f + 1)"

definition ulp :: "real \<Rightarrow> real" where
  "ulp a = 2 powr (of_int \<lfloor>log 2 a\<rfloor> - 52)"

definition float64 :: "real \<Rightarrow> real" where
  "float64 x =
     (if x = 0 then 0
      else sgn x * (of_int (round_half_even (\<bar>x\<bar> / ulp \<bar>x\<bar>)) * ulp \<bar>x\<bar>))"

text \<open>
  NumPy's \<open>float64\<close> true division does not raise on a zero divisor: it yields
  \<open>inf\<close> or \<open>nan\<close> (with a RuntimeWarning). \<open>None\<close> stands for such a non-finite
  result.
\<close>

definition np_true_divide :: "real \<Rightarrow> real \<Rightarrow> real option" where
  "np_true_divide x y = (if y = 0 then None else Some (x / y))"

text \<open>Python's float division raises \<open>ZeroDivisionError\<close> on a zero divisor.\<close>

definition py_true_divide :: "real \<Rightarrow> real \<Rightarrow> py_error + real" where
  "py_true_divide x y = (if y = 0 then Inl ZeroDivisionError else Inr (x / y))"

text \<open>\<open>np.amin\<close> and \<open>np.amax\<close> of a one-dimensional array; an empty array raises.\<close>

definition np_amin :: "real list \<Rightarrow> py_error + real" where
  "np_amin xs = (case xs of [] \<Rightarrow> Inl ValueError | y # ys \<Rightarrow> Inr (fold min ys y))"

definition np_amax :: "real list \<Rightarrow> py_error + real" where
  "np_amax xs = (case xs of [] \<Rightarrow> Inl ValueError | y # ys \<Rightarrow> Inr (fold max ys y))"

text \<open>
  A two-dimensional array: \<open>shape[1]\<close>, its number of columns, and its rows (an array
  without rows still has a number of columns).
\<close>

record ndarray =
  ncols :: nat
  array_rows :: "real list list"

text \<open>
  \<open>np.concatenate(arrays, axis=0)\<close> of two-dimensional arrays. An empty list of arrays
  raises, and so do arrays that differ in their number of columns.
\<close>

definition np_concatenate :: "ndarray list \<Rightarrow> py_error + real list list" where
  "np_concatenate arrs =
     (case arrs of
        [] \<Rightarrow> Inl ValueError
      | a # others \<Rightarrow>
          if list_all (\<lambda>b. ncols b = ncols a) others then Inr (concat (map array_rows arrs))
          else Inl ValueError)"

section \<open>library\_mcd.py: the histogram of squared descriptor norms\<close>

text \<open>
  \<open>Bin\<close> is the TypedDict of the source; its keys \<open>min\<close> and \<open>max\<close> are the fields
  \<open>min_bin\<close> and \<open>max_bin\<close>. \<open>density\<close> is \<open>None\<close> until \<open>fill_histogram\<close> sets it.
\<close>

record Bin =
  min_bin :: real
  max_bin :: real
  list_norm :: "real list"
  list_id :: "nat list"
  density :: "real option"

text \<open>
  The attributes of a \<open>NormDescriptorHistogram\<close>. The dict \<open>self.bin\<close> has the keys
  \<open>0 .. nb_bin - 1\<close> in insertion order: it is the list of its values.
\<close>

record NormDescriptorHistogram =
  descriptors :: "real list list"
  nb_bin :: int
  id_list :: "nat list"
  array_norm_square :: "real list"
  bin :: "Bin list"
  min_dis :: real
  max_dis :: real

text \<open>
  \<open>int(0.05 * len(list_atoms))\<close>: \<open>int\<close> truncates towards zero, which is the floor of
  a non-negative number.
\<close>

definition default_nb_bin :: "nat \<Rightarrow> int" where
  "default_nb_bin n = \<lfloor>(5 / 100) * real n\<rfloor>"

text \<open>\<open>np.sum(descriptors ** 2, axis=1)\<close>.\<close>

definition norm_square :: "real list \<Rightarrow> real" where
  "norm_square row = sum_list (map (\<lambda>x. x ^ 2) row)"

text \<open>
  The dict built by the loop \<open>for k in range(nb_bin)\<close> of \<open>__init__\<close>. The product and
  the sum of \<open>self.min_dis + k * increment\<close> are rounded each; \<open>k + 1\<close> is an integer.
\<close>

definition empty_bin :: "(real \<Rightarrow> real) \<Rightarrow> real \<Rightarrow> real \<Rightarrow> nat \<Rightarrow> Bin" where
  "empty_bin fl lo increment k =
     \<lparr>min_bin = fl (lo + fl (real k * increment)),
      max_bin = fl (lo + fl (real (k + 1) * increment)),
      list_norm = [], list_id = [], density = None\<rparr>"

text \<open>
  The first loop of \<open>fill_histogram\<close>, for one bin: the boolean mask
  \<open>(norm > min) & (norm <= max)\<close> selects the norms and the ids at the same positions.
\<close>

definition in_bin :: "Bin \<Rightarrow> real \<Rightarrow> bool" where
  "in_bin b v \<longleftrightarrow> v > min_bin b \<and> v \<le> max_bin b"

definition fill_bin :: "real list \<Rightarrow> nat list \<Rightarrow> Bin \<Rightarrow> Bin" where
  "fill_bin norms ids b =
     b\<lparr>list_norm := list_norm b @ filter (in_bin b) norms,
       list_id := list_id b @ map snd (filter (\<lambda>(v, i). in_bin b v) (zip norms ids))\<rparr>"

text \<open>
  \<open>random.shuffle(x)\<close> permutes the list \<open>x\<close> in place. Its random outcome is fixed by
  the parameter \<open>rnd\<close>, which gives every position a priority: the elements are
  stably sorted by the priorities of their positions. Every \<open>rnd\<close> yields a
  permutation, and every permutation is the outcome of some \<open>rnd\<close>.
\<close>

definition random_shuffle :: "(nat \<Rightarrow> nat) \<Rightarrow> 'a list \<Rightarrow> 'a list" where
  "random_shuffle rnd xs = map snd (sort_key fst (zip (map rnd [0..<length xs]) xs))"

text \<open>
  The second loop, for the bin of key \<open>k\<close>: \<open>list_id\<close> is shuffled (with the
  randomness \<open>rnd k\<close> of that call), and the raw density is
  \<open>float(len(list_norm)) / float(N)\<close>.
\<close>

definition raw_density :: "nat \<Rightarrow> Bin \<Rightarrow> real" where
  "raw_density N b = real (length (list_norm b)) / real N"

definition shuffle_bin :: "(nat \<Rightarrow> nat \<Rightarrow> nat) \<Rightarrow> nat \<Rightarrow> nat \<times> Bin \<Rightarrow> Bin" where
  "shuffle_bin rnd N kb =
     (snd kb)\<lparr>list_id := random_shuffle (rnd (fst kb)) (list_id (snd kb)),
              density := Some (raw_density N (snd kb))\<rparr>"

text \<open>The third loop: \<open>data_bin['density'] += miss_density\<close>.\<close>

definition add_density :: "real \<Rightarrow> Bin \<Rightarrow> Bin" where
  "add_density miss b = b\<lparr>density := map_option (\<lambda>d. d + miss) (density b)\<rparr>"

definition fill_histogram ::
  "(nat \<Rightarrow> nat \<Rightarrow> nat) \<Rightarrow> NormDescriptorHistogram \<Rightarrow> py_error + NormDescriptorHistogram" where
  "fill_histogram rnd h =
     (let bins1 = map (fill_bin (array_norm_square h) (id_list h)) (bin h);
          N = length (descriptors h)
      in if bins1 \<noteq> [] \<and> N = 0 then Inl ZeroDivisionError
         else
           let bins2 = map (shuffle_bin rnd N) (enumerate 0 bins1);
               sum_density = sum_list (map (raw_density N) bins1)
           in case py_true_divide (1 - sum_density) (real_of_int (nb_bin h)) of
                Inl e \<Rightarrow> Inl e
              | Inr miss_density \<Rightarrow> Inr (h\<lparr>bin := map (add_density miss_density) bins2\<rparr>))"

text \<open>
  \<open>__init__\<close>. A structure of \<open>list_atoms\<close> is given by its \<open>milady-descriptors\<close>
  array. The bins are created for \<open>k in range(nb_bin)\<close>, an empty range when
  \<open>nb_bin \<le> 0\<close>; the non-finite increment of \<open>nb_bin = 0\<close> is then never used. The
  difference and the quotient of \<open>(self.max_dis - self.min_dis) / nb_bin\<close> are rounded
  each.
\<close>

definition init ::
  "(real \<Rightarrow> real) \<Rightarrow> (nat \<Rightarrow> nat \<Rightarrow> nat) \<Rightarrow> ndarray list \<Rightarrow> int option
     \<Rightarrow> py_error + NormDescriptorHistogram" where
  "init fl rnd list_atoms nb_bin_arg =
     (let nb = (case nb_bin_arg of None \<Rightarrow> default_nb_bin (length list_atoms) | Some n \<Rightarrow> n)
      in case np_concatenate list_atoms of
           Inl e \<Rightarrow> Inl e
         | Inr descr \<Rightarrow>
             let norms = map norm_square descr
             in case np_amin norms of
                  Inl e \<Rightarrow> Inl e
                | Inr lo \<Rightarrow>
                    (case np_amax norms of
                       Inl e \<Rightarrow> Inl e
                     | Inr hi \<Rightarrow>
                         let bins = (case np_true_divide (fl (hi - lo)) (real_of_int nb) of
                                       None \<Rightarrow> []
                                     | Some increment \<Rightarrow>
                                         map (empty_bin fl lo (fl increment)) [0..<nat nb])
                         in fill_histogram rnd
                              \<lparr>descriptors = descr, nb_bin = nb,
                               id_list = [0..<length descr],
                               array_norm_square = norms, bin = bins,
                               min_dis = lo, max_dis = hi\<rparr>))"

text \<open>
  \<open>histogram_sample\<close>. \<open>np.random.choice(a, nb_selected, p=p)\<close> first validates the
  probability vector \<open>p\<close> of the bin densities: it has one entry per element of
  \<open>a = [0, ..., nb_bin - 1]\<close>, no entry is \<open>nan\<close> (a \<open>None\<close> density) or negative, and
  the entries sum to 1; otherwise it raises \<open>ValueError\<close>. The indices it draws are
  the parameter \<open>selection_bin\<close>, whose length is \<open>nb_selected\<close>.
\<close>

definition np_random_choice_check :: "int \<Rightarrow> real option list \<Rightarrow> py_error + unit" where
  "np_random_choice_check nb p =
     (case those p of
        None \<Rightarrow> Inl ValueError
      | Some ps \<Rightarrow>
          if length ps \<noteq> nat nb \<or> list_ex (\<lambda>x. x < 0) ps \<or> sum_list ps \<noteq> 1
          then Inl ValueError else Inr ())"

text \<open>
  The loop \<open>for sl_bin in selection_bin\<close>: when the selected bin still has ids, its
  last id is appended to \<open>list_id_selected\<close> and popped from the bin; otherwise the
  draw does nothing. A key that is not in \<open>self.bin\<close> raises \<open>KeyError\<close>.
\<close>

fun sample_loop :: "Bin list \<Rightarrow> nat list \<Rightarrow> nat list \<Rightarrow> py_error + Bin list \<times> nat list" where
  "sample_loop bins list_id_selected [] = Inr (bins, list_id_selected)"
| "sample_loop bins list_id_selected (sl_bin # rest) =
     (if sl_bin < length bins then
        (if length (list_id (bins ! sl_bin)) > 0
         then sample_loop
                (bins[sl_bin := (bins ! sl_bin)\<lparr>list_id := butlast (list_id (bins ! sl_bin))\<rparr>])
                (list_id_selected @ [last (list_id (bins ! sl_bin))]) rest
         else sample_loop bins list_id_selected rest)
      else Inl KeyError)"

text \<open>\<open>self.descriptors[list_id_selected]\<close>: the rows at the selected ids.\<close>

definition np_take :: "'a list \<Rightarrow> nat list \<Rightarrow> py_error + 'a list" where
  "np_take rows ids =
     (if list_all (\<lambda>i. i < length rows) ids then Inr (map (\<lambda>i. rows ! i) ids)
      else Inl IndexError)"

definition histogram_sample ::
  "NormDescriptorHistogram \<Rightarrow> nat list
     \<Rightarrow> py_error + NormDescriptorHistogram \<times> real list list" where
  "histogram_sample h selection_bin =
     (case np_random_choice_check (nb_bin h) (map density (bin h)) of
        Inl e \<Rightarrow> Inl e
      | Inr _ \<Rightarrow>
          (case sample_loop (bin h) [] selection_bin of
             Inl e \<Rightarrow> Inl e
           | Inr (bins', list_id_selected) \<Rightarrow>
               (case np_take (descriptors h) list_id_selected of
                  Inl e \<Rightarrow> Inl e
                | Inr selected \<Rightarrow> Inr (h\<lparr>bin := bins'\<rparr>, selected))))"

text \<open>
  The histograms a program can hold: one returned by the constructor, or one left by
  a call of \<open>histogram_sample\<close> on such a histogram. The rounding of the arithmetic is
  monotone, as rounding to the nearest float is.
\<close>

inductive reachable :: "NormDescriptorHistogram \<Rightarrow> bool" where
  constructed: "mono fl \<Longrightarrow> init fl rnd list_atoms nb_bin_arg = Inr h \<Longrightarrow> reachable h"
| sampled: "reachable h \<Longrightarrow> histogram_sample h selection_bin = Inr (h', selected) \<Longrightarrow> reachable h'"

text \<open>
  The increment and the bounds of the bins as the constructor computes them, and the
  bin of key \<open>k\<close> as the constructor leaves it, in closed form: the norms and ids of its
  interval, the ids shuffled, the corrected density.
\<close>

definition increment_of :: "(real \<Rightarrow> real) \<Rightarrow> real \<Rightarrow> real \<Rightarrow> int \<Rightarrow> real" where
  "increment_of fl lo hi nb = fl (fl (hi - lo) / real_of_int nb)"

definition bound :: "(real \<Rightarrow> real) \<Rightarrow> real \<Rightarrow> real \<Rightarrow> int \<Rightarrow> nat \<Rightarrow> real" where
  "bound fl lo hi nb k = fl (lo + fl (real k * increment_of fl lo hi nb))"

definition final_bin ::
  "(real \<Rightarrow> real) \<Rightarrow> (nat \<Rightarrow> nat \<Rightarrow> nat) \<Rightarrow> real list \<Rightarrow> real \<Rightarrow> real \<Rightarrow> int \<Rightarrow> nat \<Rightarrow> Bin" where
  "final_bin fl rnd norms lo hi nb k =
     (let b = fill_bin norms [0..<length norms] (empty_bin fl lo (increment_of fl lo hi nb) k);
          miss = (1 - sum_list (map (\<lambda>j. raw_density (length norms)
                   (fill_bin norms [0..<length norms]
                      (empty_bin fl lo (increment_of fl lo hi nb) j))) [0..<nat nb]))
                 / real_of_int nb
      in add_density miss (shuffle_bin rnd (length norms) (k, b)))"

text \<open>
  A small dataset for concrete runs: one structure of three atoms with the
  one-dimensional descriptors 0, 1 and 2 (squared norms 0, 1 and 4), two bins, exact
  arithmetic, and the randomness that leaves every list in its order.
\<close>

definition keep_order :: "nat \<Rightarrow> nat \<Rightarrow> nat" where
  "keep_order k j = 0"

definition small_dataset :: "ndarray list" where
  "small_dataset = [\<lparr>ncols = 1, array_rows = [[0], [1], [2]]\<rparr>]"

definition small_histogram :: NormDescriptorHistogram where
  "small_histogram =
     \<lparr>descriptors = [[0], [1], [2]], nb_bin = 2, id_list = [0, 1, 2],
      array_norm_square = [0, 1, 4],
      bin = [\<lparr>min_bin = 0, max_bin = 2, list_norm = [1], list_id = [1], density = Some (1 / 2)\<rparr>,
             \<lparr>min_bin = 2, max_bin = 4, list_norm = [4], list_id = [2], density = Some (1 / 2)\<rparr>],
      min_dis = 0, max_dis = 4\<rparr>"

text \<open>The small histogram after \<open>histogram_sample\<close> has drawn bin 0 twice.\<close>

definition small_histogram_sampled :: NormDescriptorHistogram where
  "small_histogram_sampled =
     small_histogram\<lparr>bin :=
       [\<lparr>min_bin = 0, max_bin = 2, list_norm = [1], list_id = [], density = Some (1 / 2)\<rparr>,
        \<lparr>min_bin = 2, max_bin = 4, list_norm = [4], list_id = [2], density = Some (1 / 2)\<rparr>]\<rparr>"

text \<open>
  One structure of two atoms with the descriptors 0 and 7 (squared norms 0 and 49),
  for a run of eleven bins in \<open>float64\<close> arithmetic.
\<close>

definition two_descriptors :: "ndarray list" where
  "two_descriptors = [\<lparr>ncols = 1, array_rows = [[0], [7]]\<rparr>]"

section \<open>compact\_phases\_builder.py: the C15 builder\<close>

subsection \<open>Vectors, templates and atoms\<close>

text \<open>
  A NumPy array of three coordinates is a triple of reals (integer lattice coordinates
  are integral reals). \<open>vnorm\<close> is \<open>np.linalg.norm\<close> of one row.
\<close>

type_synonym vec3 = "real \<times> real \<times> real"

definition vadd :: "vec3 \<Rightarrow> vec3 \<Rightarrow> vec3" where
  "vadd p q = (fst p + fst q, fst (snd p) + fst (snd q), snd (snd p) + snd (snd q))"

definition vsub :: "vec3 \<Rightarrow> vec3 \<Rightarrow> vec3" where
  "vsub p q = (fst p - fst q, fst (snd p) - fst (snd q), snd (snd p) - snd (snd q))"

definition vscale :: "real \<Rightarrow> vec3 \<Rightarrow> vec3" where
  "vscale c p = (c * fst p, c * fst (snd p), c * snd (snd p))"

definition vnorm :: "vec3 \<Rightarrow> real" where
  "vnorm p = sqrt ((fst p)\<^sup>2 + (fst (snd p))\<^sup>2 + (snd (snd p))\<^sup>2)"

text \<open>
  The geometric template of one type, an \<open>Octa\<close> of \<open>compact_phases_library\<close>. That
  module is not part of the sources; the builder only reads four arrays of a template,
  which are given here by the rows the builder iterates over:
  \<open>link\<close> the rows of \<open>link.tolist()\<close>, \<open>atom\<close> the rows of \<open>atom.T\<close> (one per
  tetrahedron), \<open>gaos\<close> for each tetrahedron index \<open>t\<close> the rows of \<open>gaos[:, :, t]\<close>, and
  \<open>removeatom\<close> the rows of \<open>removeatom.T\<close>. \<open>MetaOctahedron.typeOcta\<close> is a dict from
  type names to templates.
\<close>

record Octa =
  link :: "vec3 list"
  atom :: "vec3 list"
  gaos :: "vec3 list list"
  removeatom :: "vec3 list"

type_synonym MetaOctahedron = "string \<Rightarrow> Octa option"

record InputsCompactPhases =
  a0 :: real
  element :: string
  scale_factor :: real

text \<open>
  An entry of \<open>centerC15\<close> once it holds both keys. The dict \<open>centerC15\<close> is kept in
  insertion order: a list of key-value pairs with distinct keys, written with
  \<open>AList.update\<close> (an existing key keeps its place, a new key goes last).
\<close>

record C15Center =
  center :: vec3
  type :: string

text \<open>
  An \<open>ase.Atoms\<close> object, as far as the builder uses it: the positions, the three cell
  vectors and the optional per-atom array \<open>defect\<close>.
\<close>

record Atoms =
  positions :: "vec3 list"
  cell :: "vec3 list"
  defect :: "real list option"

record C15Builder =
  octahedron :: MetaOctahedron
  dict_param :: InputsCompactPhases
  centerC15 :: "(nat \<times> C15Center) list"
  size_cell :: "int option"
  cubic_supercell_unit :: "Atoms option"
  extra_atom :: "Atoms option"
  C15_system :: "Atoms option"

subsection \<open>Reading the input file\<close>

text \<open>
  While the file is read, an entry of \<open>centerC15\<close> is a dict that may hold the key
  \<open>center\<close>, the key \<open>type\<close>, or both, in insertion order. The value of \<open>center\<close> is the
  integer array parsed from the element text, the value of \<open>type\<close> the element text.
\<close>

datatype c15_value = center_array "int list" | type_text "string option"

type_synonym c15_entry = "(string \<times> c15_value) list"

text \<open>
  The XML tree: an element has a tag, a text and children. \<open>ints_of_text\<close> stands for
  \<open>[int(el) for el in text.split()]\<close> of the Python library, which raises on a token
  that is not an integer; an element without text has the text \<open>None\<close>, and \<open>None.split\<close>
  raises \<open>AttributeError\<close>.
\<close>

datatype xml = Element (tag: string) (elem_text: "string option") (children: "xml list")

text \<open>
  \<open>if not id in self.centerC15.keys(): self.centerC15[id] = {}\<close> followed by
  \<open>self.centerC15[id][key] = value\<close>.
\<close>

definition set_entry :: "nat \<Rightarrow> string \<Rightarrow> c15_value \<Rightarrow> (nat \<times> c15_entry) list \<Rightarrow> (nat \<times> c15_entry) list" where
  "set_entry i key v d =
     AList.map_entry i (AList.update key v)
       (if i \<in> fst ` set d then d else AList.update i [] d)"

fun centers_loop ::
  "(string \<Rightarrow> py_error + int list) \<Rightarrow> (nat \<times> xml) list \<Rightarrow> (nat \<times> c15_entry) list
     \<Rightarrow> py_error + (nat \<times> c15_entry) list" where
  "centers_loop ints_of_text [] d = Inr d"
| "centers_loop ints_of_text ((id_cent, cent) # rest) d =
     (case elem_text cent of
        None \<Rightarrow> Inl AttributeError
      | Some t \<Rightarrow>
          (case ints_of_text t of
             Inl e \<Rightarrow> Inl e
           | Inr arr \<Rightarrow>
               centers_loop ints_of_text rest (set_entry id_cent ''center'' (center_array arr) d)))"

fun types_loop :: "(nat \<times> xml) list \<Rightarrow> (nat \<times> c15_entry) list \<Rightarrow> (nat \<times> c15_entry) list" where
  "types_loop [] d = d"
| "types_loop ((id_type, ty) # rest) d =
     types_loop rest (set_entry id_type ''type'' (type_text (elem_text ty)) d)"

text \<open>The loop of \<open>InputsParser\<close> over the children of the root.\<close>

fun parse_loop ::
  "(string \<Rightarrow> py_error + int list) \<Rightarrow> xml list \<Rightarrow> (nat \<times> c15_entry) list
     \<Rightarrow> py_error + (nat \<times> c15_entry) list" where
  "parse_loop ints_of_text [] d = Inr d"
| "parse_loop ints_of_text (xml_param # rest) d =
     (case (if tag xml_param = ''Centers''
            then centers_loop ints_of_text (enumerate 0 (children xml_param)) d
            else Inr d) of
        Inl e \<Rightarrow> Inl e
      | Inr d1 \<Rightarrow>
          parse_loop ints_of_text rest
            (if tag xml_param = ''Type''
             then types_loop (enumerate 0 (children xml_param)) d1 else d1))"

text \<open>
  \<open>check_out_parser\<close>: the first entry whose list of keys is neither
  \<open>['type', 'center']\<close> nor \<open>['center', 'type']\<close> raises; otherwise nothing happens.
\<close>

fun check_out_parser :: "(nat \<times> c15_entry) list \<Rightarrow> py_error + unit" where
  "check_out_parser [] = Inr ()"
| "check_out_parser ((key, entry) # rest) =
     (if map fst entry \<notin> set [[''type'', ''center''], [''center'', ''type'']]
      then Inl (TimeoutError key)
      else check_out_parser rest)"

text \<open>
  \<open>InputsParser\<close>, which the constructor calls on the empty dict: the parsed dict is
  kept when \<open>check_out_parser\<close> returns.
\<close>

definition InputsParser ::
  "(string \<Rightarrow> py_error + int list) \<Rightarrow> xml \<Rightarrow> py_error + (nat \<times> c15_entry) list" where
  "InputsParser ints_of_text xml_root =
     (case parse_loop ints_of_text (children xml_root) [] of
        Inl e \<Rightarrow> Inl e
      | Inr d \<Rightarrow> (case check_out_parser d of Inl e \<Rightarrow> Inl e | Inr _ \<Rightarrow> Inr d))"

text \<open>
  An entry that misses neither its type nor its center, in the words of the
  specification.
\<close>

definition complete_entry :: "c15_entry \<Rightarrow> bool" where
  "complete_entry entry \<longleftrightarrow> ''type'' \<in> fst ` set entry \<and> ''center'' \<in> fst ` set entry"

text \<open>
  The entries the parser can build: their keys are \<open>center\<close> and \<open>type\<close>, each at most
  once.
\<close>

definition good_entry :: "c15_entry \<Rightarrow> bool" where
  "good_entry entry \<longleftrightarrow> distinct (map fst entry) \<and> set (map fst entry) \<subseteq> {''center'', ''type''}"

text \<open>
  A small input file for concrete runs: two centers and one type, so that the record
  of key 1 has no type.
\<close>

definition small_xml :: xml where
  "small_xml =
     Element ''C15'' None
       [Element ''Centers'' None
          [Element ''center'' (Some ''0 0 0'') [], Element ''center'' (Some ''1 1 1'') []],
        Element ''Type'' None [Element ''type'' (Some ''type1'') []]]"

definition small_ints_of_text :: "string \<Rightarrow> py_error + int list" where
  "small_ints_of_text t = (if t = ''0 0 0'' then Inr [0, 0, 0] else if t = ''1 1 1'' then Inr [1, 1, 1] else Inl ValueError)"

definition small_center_dict :: "(nat \<times> c15_entry) list" where
  "small_center_dict =
     [(0, [(''center'', center_array [0, 0, 0]), (''type'', type_text (Some ''type1''))]),
      (1, [(''center'', center_array [1, 1, 1])])]"

subsection \<open>The cubic supercell\<close>

text \<open>\<open>int(x)\<close> of a float truncates towards zero.\<close>

definition py_int :: "real \<Rightarrow> int" where
  "py_int x = (if x < 0 then - \<lfloor>- x\<rfloor> else \<lfloor>x\<rfloor>)"

definition coords :: "vec3 \<Rightarrow> real list" where
  "coords p = [fst p, fst (snd p), snd (snd p)]"

definition compute_cell_size :: "C15Builder \<Rightarrow> py_error + int list" where
  "compute_cell_size s =
     (case np_amax (concat (map (\<lambda>kv. coords (center (snd kv))) (centerC15 s))) of
        Inl e \<Rightarrow> Inl e
      | Inr m \<Rightarrow> Inr (replicate 3 (py_int (scale_factor (dict_param s) * m))))"

text \<open>
  \<open>compute_cell_size_draft\<close>: \<open>int(np.ceil(rbox / a0))\<close> with
  \<open>rbox = size * scale_factor\<close>. When \<open>a0\<close> is zero the division raises
  \<open>ZeroDivisionError\<close> if \<open>size\<close> (here \<open>size_c\<close>) is a Python float; if it is a NumPy scalar
  (\<open>numpy_size\<close>) it yields \<open>nan\<close> or \<open>inf\<close>, on which \<open>int\<close> raises \<open>ValueError\<close> or
  \<open>OverflowError\<close>.
\<close>

definition compute_cell_size_draft :: "InputsCompactPhases \<Rightarrow> bool \<Rightarrow> real \<Rightarrow> py_error + int list" where
  "compute_cell_size_draft p numpy_size size_c =
     (let rbox = size_c * scale_factor p
      in if a0 p = 0
         then Inl (if numpy_size then (if rbox = 0 then ValueError else OverflowError)
                   else ZeroDivisionError)
         else Inr (replicate 3 \<lceil>rbox / a0 p\<rceil>))"

text \<open>
  \<open>build_cubic_supercell\<close>. \<open>SolidAse(size_list, element, 1.0).structure('BCC')\<close> belongs
  to the module \<open>lattice\<close>, which is not part of the sources: it is the parameter
  \<open>SolidAse_BCC\<close>.
\<close>

definition build_cubic_supercell ::
  "(int list \<Rightarrow> string \<Rightarrow> Atoms) \<Rightarrow> C15Builder \<Rightarrow> bool \<Rightarrow> bool \<Rightarrow> real \<Rightarrow> py_error + Atoms \<times> int" where
  "build_cubic_supercell SolidAse_BCC s draft numpy_size size_c =
     (case (if draft then compute_cell_size_draft (dict_param s) numpy_size size_c
            else compute_cell_size s) of
        Inl e \<Rightarrow> Inl e
      | Inr size_lst \<Rightarrow> Inr (SolidAse_BCC size_lst (element (dict_param s)), size_lst ! 0))"

subsection \<open>Generating cluster centers\<close>

text \<open>
  \<open>compute_number_perfect_C15\<close>: \<open>int((np.ceil(size / minimal_size) + 1)**2)\<close>. The
  divisor is a NumPy scalar, so a zero divisor gives \<open>nan\<close> or \<open>inf\<close> and \<open>int\<close> raises.
\<close>

definition compute_number_perfect_C15 :: "real \<Rightarrow> real \<Rightarrow> py_error + int" where
  "compute_number_perfect_C15 minimal_size size_c =
     (if minimal_size = 0 then Inl (if size_c = 0 then ValueError else OverflowError)
      else Inr ((\<lceil>size_c / minimal_size\<rceil> + 1)\<^sup>2))"

text \<open>
  The dict \<open>explorated_dict\<close> with its keys \<open>center\<close>, \<open>type\<close> and \<open>link\<close>. The value of
  \<open>link\<close> is what \<open>random.shuffle(typeOcta[t].link.tolist())\<close> returns:
  \<open>random.shuffle\<close> shuffles the temporary list in place and returns \<open>None\<close>.
\<close>

record explorated =
  center_e :: vec3
  type_e :: string
  link_e :: "vec3 list option"

definition shuffled_link :: "MetaOctahedron \<Rightarrow> string \<Rightarrow> py_error + vec3 list option" where
  "shuffled_link typeOcta t = (case typeOcta t of None \<Rightarrow> Inl KeyError | Some octa \<Rightarrow> Inr None)"

text \<open>
  The loop \<open>for idx_C15 in range(1, Nb_C15)\<close>. \<open>len(None)\<close> raises \<open>TypeError\<close>. With a
  list, a zero length raises \<open>ZeroDivisionError\<close> in the modulo; when the index is a
  multiple of the length, \<open>random.sample\<close> is called without its argument \<open>k\<close> and
  raises \<open>TypeError\<close>; otherwise the new center is \<open>center_coordinates\<close> plus the link
  of index \<open>idx_C15 % len\<close>, with the type of \<open>explorated_dict\<close>.
\<close>

fun centers_generation_loop ::
  "vec3 \<Rightarrow> explorated \<Rightarrow> nat list \<Rightarrow> (nat \<times> C15Center) list \<Rightarrow> py_error + (nat \<times> C15Center) list" where
  "centers_generation_loop center_coordinates ed [] centers = Inr centers"
| "centers_generation_loop center_coordinates ed (idx_C15 # rest) centers =
     (case link_e ed of
        None \<Rightarrow> Inl TypeError
      | Some l \<Rightarrow>
          if length l = 0 then Inl ZeroDivisionError
          else if idx_C15 mod length l = 0 then Inl TypeError
          else centers_generation_loop center_coordinates ed rest
                 (AList.update idx_C15
                    \<lparr>center = vadd center_coordinates (l ! (idx_C15 mod length l)),
                     type = type_e ed\<rparr> centers))"

definition AgnosticPerfectC15Cluster ::
  "(int list \<Rightarrow> string \<Rightarrow> Atoms) \<Rightarrow> C15Builder \<Rightarrow> real \<Rightarrow> py_error + C15Builder" where
  "AgnosticPerfectC15Cluster SolidAse_BCC s cluster_size =
     (let minimal_cluster_size = sqrt 3 * a0 (dict_param s)
      in if cluster_size < minimal_cluster_size then
           (case build_cubic_supercell SolidAse_BCC s True True minimal_cluster_size of
              Inl e \<Rightarrow> Inl e
            | Inr (unit, sz) \<Rightarrow>
                let c = real_of_int \<lceil>(1 / 2) * real_of_int sz\<rceil>
                in Inr (s\<lparr>cubic_supercell_unit := Some unit, size_cell := Some sz,
                          centerC15 := AList.update 0 \<lparr>center = (c, c, c), type = ''type1''\<rparr>
                                         (centerC15 s)\<rparr>))
         else
           (case build_cubic_supercell SolidAse_BCC s True False cluster_size of
              Inl e \<Rightarrow> Inl e
            | Inr (unit, sz) \<Rightarrow>
                (case compute_number_perfect_C15 minimal_cluster_size cluster_size of
                   Inl e \<Rightarrow> Inl e
                 | Inr Nb_C15 \<Rightarrow>
                     let c = real_of_int \<lceil>(1 / 2) * real_of_int sz\<rceil>
                     in (case shuffled_link (octahedron s) ''type1'' of
                           Inl e \<Rightarrow> Inl e
                         | Inr l \<Rightarrow>
                             (case centers_generation_loop (c, c, c)
                                     \<lparr>center_e = (c, c, c), type_e = ''type2'', link_e = l\<rparr>
                                     [1..<nat Nb_C15]
                                     (AList.update 0 \<lparr>center = (c, c, c), type = ''type1''\<rparr>
                                        (centerC15 s)) of
                                Inl e \<Rightarrow> Inl e
                              | Inr centers \<Rightarrow>
                                  Inr (s\<lparr>cubic_supercell_unit := Some unit, size_cell := Some sz,
                                         centerC15 := centers\<rparr>))))))"

subsection \<open>Expanding the centers into positions\<close>

text \<open>
  The body of the innermost loop of \<open>build_C15_system\<close>: with a non-empty list the new
  position is skipped when \<open>np.amin\<close> of its distances to the accepted positions is
  below the tolerance, and appended otherwise; the first position is always appended.
\<close>

fun add_position :: "real \<Rightarrow> vec3 list \<Rightarrow> vec3 \<Rightarrow> vec3 list" where
  "add_position tolerance [] new_C15_position = [new_C15_position]"
| "add_position tolerance (q # qs) new_C15_position =
     (if fold min (map (\<lambda>r. vnorm (vsub r new_C15_position)) qs)
           (vnorm (vsub q new_C15_position)) < tolerance
      then q # qs
      else (q # qs) @ [new_C15_position])"

fun gaos_loop :: "real \<Rightarrow> vec3 \<Rightarrow> vec3 \<Rightarrow> vec3 list \<Rightarrow> vec3 list \<Rightarrow> vec3 list" where
  "gaos_loop tolerance center_coordinate tetra [] acc = acc"
| "gaos_loop tolerance center_coordinate tetra (gaos_tetra # rest) acc =
     gaos_loop tolerance center_coordinate tetra rest
       (add_position tolerance acc
          (vadd (vadd center_coordinate tetra) (vscale (1 / 2) gaos_tetra)))"

text \<open>\<open>gaos[:, :, id_tetra]\<close> raises \<open>IndexError\<close> when the index is out of range.\<close>

fun tetra_loop ::
  "real \<Rightarrow> vec3 \<Rightarrow> vec3 list list \<Rightarrow> (nat \<times> vec3) list \<Rightarrow> vec3 list \<Rightarrow> py_error + vec3 list" where
  "tetra_loop tolerance center_coordinate gs [] acc = Inr acc"
| "tetra_loop tolerance center_coordinate gs ((id_tetra, tetra) # rest) acc =
     (if id_tetra < length gs
      then tetra_loop tolerance center_coordinate gs rest
             (gaos_loop tolerance center_coordinate tetra (gs ! id_tetra) acc)
      else Inl IndexError)"

fun C15_center_loop ::
  "real \<Rightarrow> MetaOctahedron \<Rightarrow> (nat \<times> C15Center) list \<Rightarrow> vec3 list \<Rightarrow> py_error + vec3 list" where
  "C15_center_loop tolerance typeOcta [] acc = Inr acc"
| "C15_center_loop tolerance typeOcta ((key, C15_center) # rest) acc =
     (case typeOcta (type C15_center) of
        None \<Rightarrow> Inl KeyError
      | Some octa \<Rightarrow>
          (case tetra_loop tolerance (center C15_center) (gaos octa)
                  (enumerate 0 (atom octa)) acc of
             Inl e \<Rightarrow> Inl e
           | Inr acc' \<Rightarrow> C15_center_loop tolerance typeOcta rest acc'))"

text \<open>The atoms are appended to an empty \<open>Atoms()\<close>, whose cell is zero.\<close>

definition build_C15_system :: "C15Builder \<Rightarrow> real \<Rightarrow> py_error + Atoms" where
  "build_C15_system s tolerance =
     (case C15_center_loop tolerance (octahedron s) (centerC15 s) [] of
        Inl e \<Rightarrow> Inl e
      | Inr list_position_C15 \<Rightarrow>
          Inr \<lparr>positions = list_position_C15, cell = replicate 3 (0, 0, 0), defect = None\<rparr>)"

text \<open>
  The sites of the specification, in the order of enumeration: for every center, every
  tetrahedron offset of its template and every gaos offset of that tetrahedron, the
  position center + tetrahedron offset + half the gaos offset.
\<close>

definition center_sites :: "MetaOctahedron \<Rightarrow> C15Center \<Rightarrow> py_error + vec3 list" where
  "center_sites typeOcta c =
     (case typeOcta (type c) of
        None \<Rightarrow> Inl KeyError
      | Some octa \<Rightarrow>
          if length (gaos octa) < length (atom octa) then Inl IndexError
          else Inr (concat (map (\<lambda>(t, tetra).
                       map (\<lambda>g. vadd (vadd (center c) tetra) (vscale (1 / 2) g)) (gaos octa ! t))
                     (enumerate 0 (atom octa)))))"

fun C15_sites :: "MetaOctahedron \<Rightarrow> (nat \<times> C15Center) list \<Rightarrow> py_error + vec3 list" where
  "C15_sites typeOcta [] = Inr []"
| "C15_sites typeOcta ((key, c) # rest) =
     (case center_sites typeOcta c of
        Inl e \<Rightarrow> Inl e
      | Inr ps \<Rightarrow>
          (case C15_sites typeOcta rest of Inl e \<Rightarrow> Inl e | Inr qs \<Rightarrow> Inr (ps @ qs)))"

subsection \<open>Removing atoms and merging\<close>

text \<open>
  \<open>ToRemoveCoordinate\<close>. The list comprehension builds, for every center, the six rows
  \<open>removeatom.T + center\<close>: an array of shape \<open>(n, 6, 3)\<close> (a template is missing:
  \<open>KeyError\<close>; the rows are not six each: \<open>ValueError\<close>, from \<open>np.array\<close> or from
  \<open>reshape\<close>). \<open>reshape((3, 6 n))\<close> cuts the flat sequence of its \<open>18 n\<close> numbers into
  three rows of length \<open>6 n\<close>, and \<open>.T\<close> makes row \<open>j\<close> of the result the triple of the
  \<open>j\<close>-th numbers of these three rows.
\<close>

definition ToRemoveCoordinate ::
  "MetaOctahedron \<Rightarrow> (nat \<times> C15Center) list \<Rightarrow> py_error + vec3 list" where
  "ToRemoveCoordinate typeOcta centers =
     (case those (map (\<lambda>kv. typeOcta (type (snd kv))) centers) of
        None \<Rightarrow> Inl KeyError
      | Some octas \<Rightarrow>
          let rows = map (\<lambda>ov. map (\<lambda>r. vadd r (center (snd (snd ov)))) (removeatom (fst ov)))
                       (zip octas centers);
              n6 = length centers * 6
          in if list_ex (\<lambda>rs. length rs \<noteq> 6) rows then Inl ValueError
             else let flat = concat (map coords (concat rows))
                  in Inr (map (\<lambda>j. (flat ! j, flat ! (n6 + j), flat ! (2 * n6 + j))) [0..<n6]))"

text \<open>
  The removal coordinates of the specification: for every center, its position plus
  each removal offset of the template of its type.
\<close>

definition removal_coordinates :: "MetaOctahedron \<Rightarrow> (nat \<times> C15Center) list \<Rightarrow> vec3 list" where
  "removal_coordinates typeOcta centers =
     concat (map (\<lambda>kv. case typeOcta (type (snd kv)) of
                          None \<Rightarrow> []
                        | Some octa \<Rightarrow> map (\<lambda>r. vadd (center (snd kv)) r) (removeatom octa))
               centers)"

text \<open>
  The loop over \<open>system.positions\<close>: the index of an atom is collected when \<open>np.amin\<close>
  of its distances to the removal coordinates is below the tolerance; \<open>np.amin\<close> of an
  empty array raises.
\<close>

fun idx2remove_loop ::
  "real \<Rightarrow> vec3 list \<Rightarrow> (nat \<times> vec3) list \<Rightarrow> nat list \<Rightarrow> py_error + nat list" where
  "idx2remove_loop tolerance cs [] list_idx2remove = Inr list_idx2remove"
| "idx2remove_loop tolerance cs ((idx, pos) # rest) list_idx2remove =
     (case np_amin (map (\<lambda>c. vnorm (vsub c pos)) cs) of
        Inl e \<Rightarrow> Inl e
      | Inr d \<Rightarrow>
          idx2remove_loop tolerance cs rest
            (if d < tolerance then list_idx2remove @ [idx] else list_idx2remove))"

text \<open>
  \<open>del atoms[indices]\<close> on a copy keeps the other atoms in their order, with their
  entries of the per-atom arrays, and the cell.
\<close>

definition delete_atoms :: "Atoms \<Rightarrow> nat list \<Rightarrow> Atoms" where
  "delete_atoms system idxs =
     system\<lparr>positions := map fst (filter (\<lambda>pk. snd pk \<notin> set idxs)
                              (zip (positions system) [0..<length (positions system)])),
            defect := map_option (\<lambda>d. map fst (filter (\<lambda>pk. snd pk \<notin> set idxs)
                              (zip d [0..<length d]))) (defect system)\<rparr>"

definition remove_atoms_in_system :: "C15Builder \<Rightarrow> Atoms \<Rightarrow> real \<Rightarrow> py_error + Atoms" where
  "remove_atoms_in_system s system tolerance =
     (case ToRemoveCoordinate (octahedron s) (centerC15 s) of
        Inl e \<Rightarrow> Inl e
      | Inr cs \<Rightarrow>
          (case idx2remove_loop tolerance cs (enumerate 0 (positions system)) [] of
             Inl e \<Rightarrow> Inl e
           | Inr list_idx2remove \<Rightarrow> Inr (delete_atoms system list_idx2remove)))"

text \<open>
  \<open>lenght_scale = np.power(len(self.C15_system) / Natoms_bulk, 0.3333)\<close>, for a non-zero
  \<open>Natoms_bulk\<close>.
\<close>

definition lenght_scale :: "nat \<Rightarrow> nat \<Rightarrow> real" where
  "lenght_scale n_system Natoms_bulk = (real n_system / real Natoms_bulk) powr (3333 / 10000)"

text \<open>
  \<open>a + b\<close> of two \<open>Atoms\<close>: the atoms of \<open>b\<close> after those of \<open>a\<close>, with the cell of
  \<open>a\<close>; an array is kept when both have it. \<open>set_cell(c * f, scale_atoms=True)\<close> for a
  cell \<open>c\<close> that spans space scales the cell and the positions by \<open>f\<close>.
\<close>

definition atoms_add :: "Atoms \<Rightarrow> Atoms \<Rightarrow> Atoms" where
  "atoms_add a b =
     \<lparr>positions = positions a @ positions b, cell = cell a,
      defect = (case (defect a, defect b) of (Some x, Some y) \<Rightarrow> Some (x @ y) | _ \<Rightarrow> None)\<rparr>"

definition set_cell_scaled :: "Atoms \<Rightarrow> real \<Rightarrow> Atoms" where
  "set_cell_scaled a f = a\<lparr>positions := map (vscale f) (positions a), cell := map (vscale f) (cell a)\<rparr>"

text \<open>
  \<open>BuildC15Cluster\<close> (writing the file apart). \<open>len(None)\<close> raises \<open>TypeError\<close> when no
  supercell was built; \<open>len(...) / Natoms_bulk\<close> divides Python integers and raises on
  zero.
\<close>

definition BuildC15Cluster :: "C15Builder \<Rightarrow> py_error + C15Builder" where
  "BuildC15Cluster s =
     (case build_C15_system s (1 / 1000) of
        Inl e \<Rightarrow> Inl e
      | Inr C15_atoms \<Rightarrow>
          (case remove_atoms_in_system s C15_atoms (1 / 1000) of
             Inl e \<Rightarrow> Inl e
           | Inr extra \<Rightarrow>
               (case cubic_supercell_unit s of
                  None \<Rightarrow> Inl TypeError
                | Some unit \<Rightarrow>
                    (case remove_atoms_in_system s unit (1 / 1000) of
                       Inl e \<Rightarrow> Inl e
                     | Inr bulk \<Rightarrow>
                         let extra1 = extra\<lparr>defect := Some (replicate (length (positions extra)) 1)\<rparr>;
                             bulk0 = bulk\<lparr>defect := Some (replicate (length (positions bulk)) 0)\<rparr>;
                             Natoms_bulk = length (positions unit);
                             merged = atoms_add bulk0 extra1
                         in if Natoms_bulk = 0 then Inl ZeroDivisionError
                            else Inr (s\<lparr>extra_atom := Some extra1,
                                       cubic_supercell_unit := Some bulk0,
                                       C15_system := Some (set_cell_scaled merged
                                         (lenght_scale (length (positions merged)) Natoms_bulk
                                            * a0 (dict_param s)))\<rparr>)))))"

subsection \<open>Small inputs for concrete runs\<close>

text \<open>
  A template of two types: one tetrahedron with one gaos site each, and the six
  octahedral removal offsets. Two centers whose sites coincide, and a single center
  away from the origin. The stand-in for \<open>SolidAse\<close> returns the two atoms of one cubic
  cell.
\<close>

definition octahedral_offsets :: "vec3 list" where
  "octahedral_offsets = [(1, 0, 0), (0, 1, 0), (0, 0, 1), (-1, 0, 0), (0, -1, 0), (0, 0, -1)]"

definition small_typeOcta :: MetaOctahedron where
  "small_typeOcta t =
     (if t = ''type1'' then
        Some \<lparr>link = [(1, 0, 0)], atom = [(1, 0, 0)], gaos = [[(0, 0, 0)]],
              removeatom = octahedral_offsets\<rparr>
      else if t = ''type2'' then
        Some \<lparr>link = [(-1, 0, 0)], atom = [(0, 0, 0)], gaos = [[(0, 0, 0)]],
              removeatom = octahedral_offsets\<rparr>
      else None)"

definition two_atom_cell :: Atoms where
  "two_atom_cell =
     \<lparr>positions = [(0, 0, 0), (1 / 2, 1 / 2, 1 / 2)],
      cell = [(1, 0, 0), (0, 1, 0), (0, 0, 1)], defect = None\<rparr>"

definition two_atom_BCC :: "int list \<Rightarrow> string \<Rightarrow> Atoms" where
  "two_atom_BCC size_lst el = two_atom_cell"

definition coincident_builder :: C15Builder where
  "coincident_builder =
     \<lparr>octahedron = small_typeOcta,
      dict_param = \<lparr>a0 = 1, element = ''Fe'', scale_factor = 1\<rparr>,
      centerC15 = [(0, \<lparr>center = (0, 0, 0), type = ''type1''\<rparr>),
                   (1, \<lparr>center = (1, 0, 0), type = ''type2''\<rparr>)],
      size_cell = None, cubic_supercell_unit = Some two_atom_cell,
      extra_atom = None, C15_system = None\<rparr>"

definition one_center_builder :: C15Builder where
  "one_center_builder =
     \<lparr>octahedron = small_typeOcta,
      dict_param = \<lparr>a0 = 1, element = ''Fe'', scale_factor = 1\<rparr>,
      centerC15 = [(0, \<lparr>center = (5, 0, 0), type = ''type1''\<rparr>)],
      size_cell = None, cubic_supercell_unit = Some two_atom_cell,
      extra_atom = None, C15_system = None\<rparr>"

definition fresh_builder :: "real \<Rightarrow> C15Builder" where
  "fresh_builder lattice_parameter =
     \<lparr>octahedron = small_typeOcta,
      dict_param = \<lparr>a0 = lattice_parameter, element = ''Fe'', scale_factor = 1\<rparr>,
      centerC15 = [], size_cell = None, cubic_supercell_unit = None,
      extra_atom = None, C15_system = None\<rparr>"

definition three_atoms :: Atoms where
  "three_atoms =
     \<lparr>positions = [(6, 0, 0), (0, 1, 0), (9, 9, 9)],
      cell = [(10, 0, 0), (0, 10, 0), (0, 0, 10)], defect = None\<rparr>"

text \<open>Positions that are pairwise at least the tolerance apart.\<close>

definition far_apart :: "real \<Rightarrow> vec3 list \<Rightarrow> bool" where
  "far_apart tol ps \<longleftrightarrow> (\<forall>i j. i < j \<and> j < length ps \<longrightarrow> tol \<le> vnorm (vsub (ps ! i) (ps ! j)))"

text \<open>The builder that \<open>BuildC15Cluster\<close> leaves for the single center.\<close>

definition one_center_result :: C15Builder where
  "one_center_result =
     one_center_builder
       \<lparr>extra_atom := Some \<lparr>positions = [(6, 0, 0)], cell = replicate 3 (0, 0, 0), defect = Some [1]\<rparr>,
        cubic_supercell_unit := Some (two_atom_cell\<lparr>defect := Some [0, 0]\<rparr>),
        C15_system := Some (set_cell_scaled
           \<lparr>positions = [(0, 0, 0), (1 / 2, 1 / 2, 1 / 2), (6, 0, 0)],
            cell = [(1, 0, 0), (0, 1, 0), (0, 0, 1)], defect = Some [0, 0, 1]\<rparr>
           (lenght_scale 3 2 * 1))\<rparr>"

section \<open>Properties of the histogram\<close>

subsection \<open>The rounding of float64\<close>

lemma round_half_even_of_int: "round_half_even (of_int n) = n"
  by (simp add: round_half_even_def)

lemma round_half_even_bounds:
  "\<lfloor>x\<rfloor> \<le> round_half_even x" "round_half_even x \<le> \<lfloor>x\<rfloor> + 1"
  by (simp_all add: round_half_even_def Let_def)

lemma round_half_even_mono:
  assumes "x \<le> y"
  shows "round_half_even x \<le> round_half_even y"
proof (cases "\<lfloor>x\<rfloor> = \<lfloor>y\<rfloor>")
  case True
  have "x - of_int \<lfloor>y\<rfloor> \<le> y - of_int \<lfloor>y\<rfloor>" using assms by simp
  then show ?thesis
    unfolding round_half_even_def Let_def True by auto
next
  case False
  with floor_mono [OF assms] have "\<lfloor>x\<rfloor> + 1 \<le> \<lfloor>y\<rfloor>" by simp
  with round_half_even_bounds(2) [of x] round_half_even_bounds(1) [of y]
  show ?thesis by linarith
qed

lemma exponent_bounds:
  assumes "0 < a"
  shows "2 powr of_int \<lfloor>log 2 a\<rfloor> \<le> a" "a < 2 powr (of_int \<lfloor>log 2 a\<rfloor> + 1)"
proof -
  have "2 powr of_int \<lfloor>log 2 a\<rfloor> \<le> a \<longleftrightarrow> of_int \<lfloor>log 2 a\<rfloor> \<le> log 2 a"
    by (rule le_log_iff [symmetric]) (use assms in simp_all)
  then show "2 powr of_int \<lfloor>log 2 a\<rfloor> \<le> a" by simp
  have "a < 2 powr (of_int \<lfloor>log 2 a\<rfloor> + 1) \<longleftrightarrow> log 2 a < of_int \<lfloor>log 2 a\<rfloor> + 1"
    by (rule log_less_iff [symmetric]) (use assms in simp_all)
  moreover have "log 2 a < of_int \<lfloor>log 2 a\<rfloor> + 1" by linarith
  ultimately show "a < 2 powr (of_int \<lfloor>log 2 a\<rfloor> + 1)" by simp
qed

lemma exponent_unique:
  assumes "2 powr of_int e \<le> a" "a < 2 powr (of_int e + 1)"
  shows "\<lfloor>log 2 a\<rfloor> = e"
proof (rule floor_unique)
  have "0 < (2::real) powr of_int e" by simp
  then have pos: "0 < a" using assms(1) by linarith
  have "of_int e \<le> log 2 a \<longleftrightarrow> 2 powr of_int e \<le> a"
    by (rule le_log_iff) (use pos in simp_all)
  then show "of_int e \<le> log 2 a" using assms(1) by simp
  have "log 2 a < of_int e + 1 \<longleftrightarrow> a < 2 powr (of_int e + 1)"
    by (rule log_less_iff) (use pos in simp_all)
  then show "log 2 a < of_int e + 1" using assms(2) by simp
qed

lemma ulp_pos: "0 < ulp a"
  by (simp add: ulp_def)

lemma significand_bounds:
  assumes "0 < a"
  shows "2 ^ 52 \<le> a / ulp a" "a / ulp a \<le> 2 ^ 53"
proof -
  let ?e = "of_int \<lfloor>log 2 a\<rfloor> :: real"
  have u: "ulp a = 2 powr ?e / 2 powr 52" by (simp add: ulp_def powr_diff)
  have p: "(2::real) powr 52 = 2 ^ 52" by (simp add: powr_numeral del: power_numeral)
  have "2 powr ?e / ulp a = 2 ^ 52" unfolding u p by simp
  moreover have "2 powr ?e / ulp a \<le> a / ulp a"
    by (rule divide_right_mono [OF exponent_bounds(1) [OF assms]]) (simp add: ulp_def)
  ultimately show "2 ^ 52 \<le> a / ulp a" by simp
  have "2 powr (?e + 1) / ulp a = 2 ^ 53" unfolding u p by (simp add: powr_add)
  moreover have "a / ulp a \<le> 2 powr (?e + 1) / ulp a"
    by (rule divide_right_mono [OF less_imp_le [OF exponent_bounds(2) [OF assms]]])
       (simp add: ulp_def)
  ultimately show "a / ulp a \<le> 2 ^ 53" by simp
qed

lemma rounded_bounds:
  assumes "0 < a"
  shows "2 powr of_int \<lfloor>log 2 a\<rfloor> \<le> of_int (round_half_even (a / ulp a)) * ulp a"
    and "of_int (round_half_even (a / ulp a)) * ulp a \<le> 2 powr (of_int \<lfloor>log 2 a\<rfloor> + 1)"
proof -
  let ?e = "of_int \<lfloor>log 2 a\<rfloor> :: real"
  have p: "(2::real) powr 52 = 2 ^ 52" by (simp add: powr_numeral del: power_numeral)
  have u: "ulp a = 2 powr ?e / 2 ^ 52" by (simp add: ulp_def powr_diff p del: power_numeral)
  have "round_half_even (of_int (2 ^ 52)) \<le> round_half_even (a / ulp a)"
    by (rule round_half_even_mono) (use significand_bounds(1) [OF assms] in simp)
  then have lo: "(2 ^ 52 :: real) \<le> of_int (round_half_even (a / ulp a))"
    unfolding round_half_even_of_int by (metis of_int_le_iff of_int_numeral of_int_power)
  have "round_half_even (a / ulp a) \<le> round_half_even (of_int (2 ^ 53))"
    by (rule round_half_even_mono) (use significand_bounds(2) [OF assms] in simp)
  then have hi: "of_int (round_half_even (a / ulp a)) \<le> (2 ^ 53 :: real)"
    unfolding round_half_even_of_int by (metis of_int_le_iff of_int_numeral of_int_power)
  have "2 powr ?e = 2 ^ 52 * ulp a" unfolding u by simp
  also have "\<dots> \<le> of_int (round_half_even (a / ulp a)) * ulp a"
    by (rule mult_right_mono [OF lo less_imp_le [OF ulp_pos]])
  finally show "2 powr ?e \<le> of_int (round_half_even (a / ulp a)) * ulp a" .
  have "of_int (round_half_even (a / ulp a)) * ulp a \<le> 2 ^ 53 * ulp a"
    by (rule mult_right_mono [OF hi less_imp_le [OF ulp_pos]])
  also have "\<dots> = 2 powr (?e + 1)" unfolding u by (simp add: powr_add)
  finally show "of_int (round_half_even (a / ulp a)) * ulp a \<le> 2 powr (?e + 1)" .
qed

lemma rounded_mono:
  assumes "0 < a" "a \<le> b"
  shows "of_int (round_half_even (a / ulp a)) * ulp a \<le> of_int (round_half_even (b / ulp b)) * ulp b"
proof -
  have b: "0 < b" using assms by simp
  have "log 2 a \<le> log 2 b" using assms by simp
  then have le: "\<lfloor>log 2 a\<rfloor> \<le> \<lfloor>log 2 b\<rfloor>" by (rule floor_mono)
  show ?thesis
  proof (cases "\<lfloor>log 2 a\<rfloor> = \<lfloor>log 2 b\<rfloor>")
    case True
    then have u: "ulp a = ulp b" by (simp add: ulp_def)
    have "a / ulp b \<le> b / ulp b"
      by (rule divide_right_mono [OF assms(2) less_imp_le [OF ulp_pos]])
    then have "round_half_even (a / ulp b) \<le> round_half_even (b / ulp b)"
      by (rule round_half_even_mono)
    then have "(of_int (round_half_even (a / ulp b)) :: real) \<le> of_int (round_half_even (b / ulp b))"
      by simp
    then show ?thesis
      unfolding u by (rule mult_right_mono [OF _ less_imp_le [OF ulp_pos]])
  next
    case False
    with le have "\<lfloor>log 2 a\<rfloor> + 1 \<le> \<lfloor>log 2 b\<rfloor>" by simp
    then have "(of_int \<lfloor>log 2 a\<rfloor> :: real) + 1 \<le> of_int \<lfloor>log 2 b\<rfloor>" by linarith
    then have "(2::real) powr (of_int \<lfloor>log 2 a\<rfloor> + 1) \<le> 2 powr of_int \<lfloor>log 2 b\<rfloor>"
      by simp
    with rounded_bounds(2) [OF assms(1)] rounded_bounds(1) [OF b]
    show ?thesis by linarith
  qed
qed

lemma rounded_pos:
  assumes "0 < a"
  shows "0 < of_int (round_half_even (a / ulp a)) * ulp a"
  by (rule less_le_trans [OF _ rounded_bounds(1) [OF assms]]) simp

lemma float64_0: "float64 0 = 0"
  by (simp add: float64_def)

lemma float64_pos: "0 < x \<Longrightarrow> float64 x = of_int (round_half_even (x / ulp x)) * ulp x"
  by (simp add: float64_def)

lemma float64_neg: "x < 0 \<Longrightarrow> float64 x = - (of_int (round_half_even (- x / ulp (- x))) * ulp (- x))"
  by (simp add: float64_def)

lemma mono_float64: "mono float64"
proof (rule monoI)
  fix x y :: real
  assume le: "x \<le> y"
  consider "0 < x" | "x = 0" "0 < y" | "x = 0" "y = 0" | "x < 0" "0 < y" | "x < 0" "y = 0" | "x < 0" "y < 0"
    using le by linarith
  then show "float64 x \<le> float64 y"
  proof cases
    case 1
    then have "0 < y" using le by simp
    with 1 rounded_mono [OF 1 le] show ?thesis by (simp add: float64_pos)
  next
    case 2
    with rounded_pos [of y] show ?thesis by (simp add: float64_pos float64_0)
  next
    case 3
    then show ?thesis by simp
  next
    case 4
    with rounded_pos [of y] rounded_pos [of "- x"] show ?thesis
      by (simp add: float64_pos float64_neg)
  next
    case 5
    with rounded_pos [of "- x"] show ?thesis by (simp add: float64_neg float64_0)
  next
    case 6
    then have "0 < - y" "- y \<le> - x" using le by simp_all
    from rounded_mono [OF this] 6 show ?thesis by (simp add: float64_neg)
  qed
qed

lemma float64_eval:
  assumes "2 ^ n \<le> x" "x < 2 ^ (n + 1)" "n \<le> 52"
  shows "float64 x = of_int (round_half_even (x * 2 ^ (52 - n))) / 2 ^ (52 - n)"
proof -
  have pos: "0 < x" by (rule less_le_trans [OF _ assms(1)]) simp
  have "\<lfloor>log 2 x\<rfloor> = int n"
    by (rule exponent_unique) (use assms in \<open>simp_all add: powr_realpow powr_add\<close>)
  then have "ulp x = 2 powr (real n - 52)" by (simp add: ulp_def)
  also have "\<dots> = 2 powr (- real (52 - n))" using assms(3) by simp
  also have "\<dots> = 1 / 2 ^ (52 - n)" by (simp add: powr_minus powr_realpow divide_inverse)
  finally have u: "ulp x = 1 / 2 ^ (52 - n)" .
  show ?thesis unfolding float64_pos [OF pos] u by simp
qed

lemma exact_simps: "mono exact" "exact 0 = 0" "exact x = x"
  by (simp_all add: mono_def exact_def)

subsection \<open>Auxiliary facts\<close>

lemma mset_random_shuffle: "mset (random_shuffle rnd xs) = mset xs"
proof -
  let ?ps = "zip (map rnd [0..<length xs]) xs"
  have "mset (map snd (sort_key fst ?ps)) = image_mset snd (mset ?ps)"
    by simp
  also have "\<dots> = mset (map snd ?ps)"
    by (simp only: mset_map)
  also have "map snd ?ps = xs"
    by simp
  finally show ?thesis by (simp add: random_shuffle_def)
qed

lemma fold_min_Min: "fold min ys (y::real) = Min (set (y # ys))"
  by (rule Min.set_eq_fold [symmetric])

lemma fold_max_Max: "fold max ys (y::real) = Max (set (y # ys))"
  by (rule Max.set_eq_fold [symmetric])

lemma np_amin_Inr: "np_amin xs = Inr lo \<Longrightarrow> xs \<noteq> [] \<and> lo = Min (set xs)"
  unfolding np_amin_def
  by (cases xs) (auto simp only: fold_min_Min list.case sum.inject list.distinct)

lemma np_amax_Inr: "np_amax xs = Inr hi \<Longrightarrow> xs \<noteq> [] \<and> hi = Max (set xs)"
  unfolding np_amax_def
  by (cases xs) (auto simp only: fold_max_Max list.case sum.inject list.distinct)

lemma init_InrD:
  assumes "init fl rnd list_atoms nb_arg = Inr h"
  shows "list_atoms \<noteq> []" "descriptors h = concat (map array_rows list_atoms)" "descriptors h \<noteq> []"
    "nb_bin h = (case nb_arg of None \<Rightarrow> default_nb_bin (length list_atoms) | Some n \<Rightarrow> n)"
    "nb_bin h \<noteq> 0"
    "array_norm_square h = map norm_square (descriptors h)"
    "id_list h = [0..<length (descriptors h)]"
    "min_dis h = Min (set (array_norm_square h))"
    "max_dis h = Max (set (array_norm_square h))"
    "bin h = map (final_bin fl rnd (array_norm_square h) (min_dis h) (max_dis h) (nb_bin h))
               [0..<nat (nb_bin h)]"
  using assms
  unfolding init_def fill_histogram_def Let_def np_concatenate_def py_true_divide_def
    np_true_divide_def
  by (auto split: if_splits sum.splits option.splits list.splits dest!: np_amin_Inr np_amax_Inr
      simp: final_bin_def increment_of_def enumerate_eq_zip map_zip_map2 comp_def
        zip_same_conv_map map_upt_eqI)

lemma empty_bin_sel:
  "min_bin (empty_bin fl lo inc k) = fl (lo + fl (real k * inc))"
  "max_bin (empty_bin fl lo inc k) = fl (lo + fl (real (k + 1) * inc))"
  "list_norm (empty_bin fl lo inc k) = []"
  "list_id (empty_bin fl lo inc k) = []"
  "density (empty_bin fl lo inc k) = None"
  by (simp_all add: empty_bin_def)

lemma final_bin_sel:
  "min_bin (final_bin fl rnd norms lo hi nb k) = bound fl lo hi nb k"
  "max_bin (final_bin fl rnd norms lo hi nb k) = bound fl lo hi nb (k + 1)"
  "list_norm (final_bin fl rnd norms lo hi nb k) =
     filter (in_bin (empty_bin fl lo (increment_of fl lo hi nb) k)) norms"
  "list_id (final_bin fl rnd norms lo hi nb k) =
     random_shuffle (rnd k)
       (map snd (filter (\<lambda>(v, i). in_bin (empty_bin fl lo (increment_of fl lo hi nb) k) v)
          (zip norms [0..<length norms])))"
  by (simp_all add: final_bin_def Let_def add_density_def shuffle_bin_def fill_bin_def
      empty_bin_sel bound_def)

lemma density_final_bin:
  "density (final_bin fl rnd norms lo hi nb k) =
     Some (raw_density (length norms)
             (fill_bin norms [0..<length norms] (empty_bin fl lo (increment_of fl lo hi nb) k))
       + (1 - sum_list (map (\<lambda>j. raw_density (length norms)
                   (fill_bin norms [0..<length norms]
                      (empty_bin fl lo (increment_of fl lo hi nb) j))) [0..<nat nb]))
                 / real_of_int nb)"
  by (simp add: final_bin_def Let_def add_density_def shuffle_bin_def)

lemma sum_list_add_const:
  "sum_list (map (\<lambda>k. f k + (c::real)) xs) = sum_list (map f xs) + real (length xs) * c"
  by (induction xs) (simp_all add: algebra_simps)

lemma init_small_dataset: "init exact keep_order small_dataset (Some 2) = Inr small_histogram"
  by (simp add: init_def exact_def np_concatenate_def np_amin_def np_amax_def norm_square_def
      np_true_divide_def empty_bin_def fill_histogram_def Let_def fill_bin_def in_bin_def
      enumerate_eq_zip shuffle_bin_def random_shuffle_def raw_density_def py_true_divide_def
      add_density_def upt_conv_Cons keep_order_def small_dataset_def small_histogram_def)

lemma set_random_shuffle: "set (random_shuffle rnd xs) = set xs"
  by (rule mset_eq_setD) (rule mset_random_shuffle)

lemma distinct_random_shuffle: "distinct (random_shuffle rnd xs) = distinct xs"
  by (rule mset_eq_imp_distinct_iff) (rule mset_random_shuffle)

lemma set_masked_ids:
  "set (map snd (filter (\<lambda>(v, i). P v) (zip norms [0..<length norms]))) =
     {i. i < length norms \<and> P (norms ! i)}"
  by (force simp: set_zip)

lemma distinct_masked_ids:
  "distinct (map snd (filter (\<lambda>(v, i). P v) (zip norms [0..<length norms])))"
  by (rule distinct_map_filter) simp

lemma increment_nonneg:
  assumes "mono fl" "fl 0 = 0" "lo \<le> hi" "0 < nb"
  shows "0 \<le> increment_of fl lo hi nb"
proof -
  have "fl 0 \<le> fl (hi - lo)" by (rule monoD [OF assms(1)]) (use assms(3) in simp)
  then have "0 \<le> fl (hi - lo) / real_of_int nb" using assms(2,4) by simp
  then have "fl 0 \<le> fl (fl (hi - lo) / real_of_int nb)" by (rule monoD [OF assms(1)])
  then show ?thesis by (simp add: increment_of_def assms(2))
qed

lemma bound_mono:
  assumes "mono fl" "0 \<le> increment_of fl lo hi nb" "j \<le> k"
  shows "bound fl lo hi nb j \<le> bound fl lo hi nb k"
proof -
  have "real j * increment_of fl lo hi nb \<le> real k * increment_of fl lo hi nb"
    by (rule mult_right_mono [OF _ assms(2)]) (use assms(3) in simp)
  then have "fl (real j * increment_of fl lo hi nb) \<le> fl (real k * increment_of fl lo hi nb)"
    by (rule monoD [OF assms(1)])
  then have "lo + fl (real j * increment_of fl lo hi nb) \<le> lo + fl (real k * increment_of fl lo hi nb)"
    by simp
  then show ?thesis unfolding bound_def by (rule monoD [OF assms(1)])
qed

lemma bound_antimono:
  assumes "mono fl" "increment_of fl lo hi nb \<le> 0" "j \<le> k"
  shows "bound fl lo hi nb k \<le> bound fl lo hi nb j"
proof -
  have "real k * increment_of fl lo hi nb \<le> real j * increment_of fl lo hi nb"
    by (rule mult_right_mono_neg [OF _ assms(2)]) (use assms(3) in simp)
  then have "fl (real k * increment_of fl lo hi nb) \<le> fl (real j * increment_of fl lo hi nb)"
    by (rule monoD [OF assms(1)])
  then have "lo + fl (real k * increment_of fl lo hi nb) \<le> lo + fl (real j * increment_of fl lo hi nb)"
    by simp
  then show ?thesis unfolding bound_def by (rule monoD [OF assms(1)])
qed

lemma bound_0:
  assumes "fl 0 = 0" "fl lo = lo"
  shows "bound fl lo hi nb 0 = lo"
  by (simp add: bound_def assms)

lemma bound_exact:
  assumes "nb \<noteq> 0"
  shows "bound exact lo hi nb (nat nb) = (if 0 < nb then hi else lo)"
  using assms by (simp add: bound_def increment_of_def exact_def)

lemma seq_index_exists_unique:
  fixes b :: "nat \<Rightarrow> real"
  assumes "\<And>j k. j \<le> k \<Longrightarrow> b j \<le> b k" and "b 0 < v" and "v \<le> b B"
  shows "\<exists>!k. k < B \<and> b k < v \<and> v \<le> b (k + 1)"
proof -
  have Bpos: "0 < B" using assms(2,3) by (cases B) auto
  define k0 where "k0 = (LEAST k. v \<le> b (k + 1))"
  have top: "v \<le> b ((B - 1) + 1)" using Bpos assms(3) by simp
  have k0: "v \<le> b (k0 + 1)" unfolding k0_def by (rule LeastI [of _ "B - 1"]) (rule top)
  have le: "k0 \<le> k" if "v \<le> b (k + 1)" for k
    unfolding k0_def by (rule Least_le) (rule that)
  have lt: "k0 < B" using le [OF top] Bpos by simp
  have below: "b k0 < v"
  proof (cases k0)
    case 0
    then show ?thesis using assms(2) by simp
  next
    case (Suc m)
    have "\<not> v \<le> b (m + 1)"
    proof
      assume "v \<le> b (m + 1)"
      from le [OF this] Suc show False by simp
    qed
    then show ?thesis using Suc by simp
  qed
  have uniq: "k = k0" if "b k < v" "v \<le> b (k + 1)" for k
  proof (rule ccontr)
    assume "k \<noteq> k0"
    with le [OF that(2)] have "k0 + 1 \<le> k" by simp
    then have "b (k0 + 1) \<le> b k" by (rule assms(1))
    with k0 that(1) show False by simp
  qed
  show ?thesis
    using lt below k0 uniq by blast
qed

lemma seq_index_range:
  fixes b :: "nat \<Rightarrow> real"
  assumes "\<And>j k. j \<le> k \<Longrightarrow> b j \<le> b k" and "k < B" and "b k < v" and "v \<le> b (k + 1)"
  shows "b 0 < v \<and> v \<le> b B"
proof -
  have "b 0 \<le> b k" by (rule assms(1)) simp
  moreover have "b (k + 1) \<le> b B" by (rule assms(1)) (use assms(2) in simp)
  ultimately show ?thesis using assms(3,4) by simp
qed

lemma in_bin_final_bin:
  "in_bin (final_bin fl rnd norms lo hi nb k) v \<longleftrightarrow>
     bound fl lo hi nb k < v \<and> v \<le> bound fl lo hi nb (k + 1)"
  by (simp add: in_bin_def final_bin_sel)

lemma in_bin_empty_bin:
  "in_bin (empty_bin fl lo (increment_of fl lo hi nb) k) v \<longleftrightarrow>
     bound fl lo hi nb k < v \<and> v \<le> bound fl lo hi nb (k + 1)"
  by (simp add: in_bin_def empty_bin_sel bound_def)

lemma in_bin_final_empty:
  "in_bin (final_bin fl rnd norms lo hi nb k) = in_bin (empty_bin fl lo (increment_of fl lo hi nb) k)"
  by (rule ext) (simp only: in_bin_final_bin in_bin_empty_bin)

lemma set_list_id_final_bin:
  "set (list_id (final_bin fl rnd norms lo hi nb k)) =
     {i. i < length norms \<and> in_bin (final_bin fl rnd norms lo hi nb k) (norms ! i)}"
  by (simp only: final_bin_sel set_random_shuffle set_masked_ids in_bin_final_empty)

lemma distinct_list_id_final_bin: "distinct (list_id (final_bin fl rnd norms lo hi nb k))"
  by (simp only: final_bin_sel distinct_random_shuffle distinct_masked_ids)

lemma np_concatenate_same_columns:
  assumes "list_atoms \<noteq> []" and "list_all (\<lambda>a. ncols a = ncols (hd list_atoms)) list_atoms"
  shows "np_concatenate list_atoms = Inr (concat (map array_rows list_atoms))"
  using assms by (cases list_atoms) (simp_all add: np_concatenate_def)

lemma np_concatenate_Inl: "np_concatenate list_atoms = Inl e \<Longrightarrow> e = ValueError"
  by (auto simp: np_concatenate_def split: list.splits if_splits)

lemma init_succeeds:
  assumes "concat (map array_rows list_atoms) \<noteq> []"
    and "list_all (\<lambda>a. ncols a = ncols (hd list_atoms)) list_atoms"
    and "(case nb_arg of None \<Rightarrow> default_nb_bin (length list_atoms) | Some n \<Rightarrow> n) \<noteq> 0"
  shows "\<exists>h. init fl rnd list_atoms nb_arg = Inr h"
proof -
  from assms(1) have la: "list_atoms \<noteq> []" by auto
  note c = np_concatenate_same_columns [OF la assms(2)]
  obtain y ys where n: "map norm_square (concat (map array_rows list_atoms)) = y # ys"
    using assms(1) by (cases "concat (map array_rows list_atoms)") auto
  show ?thesis
    using assms(1,3)
    unfolding init_def fill_histogram_def Let_def c py_true_divide_def
      np_true_divide_def np_amin_def np_amax_def
    by (simp add: n)
qed

lemma init_zero_bins:
  assumes "(case nb_arg of None \<Rightarrow> default_nb_bin (length list_atoms) | Some n \<Rightarrow> n) = 0"
  shows "\<exists>e. init fl rnd list_atoms nb_arg = Inl e"
proof (cases "np_concatenate list_atoms")
  case (Inl e)
  then show ?thesis by (simp add: init_def Let_def)
next
  case (Inr descr)
  show ?thesis
  proof (cases "map norm_square descr")
    case Nil
    then show ?thesis by (simp add: init_def Let_def Inr np_amin_def)
  next
    case (Cons y ys)
    then have "descr \<noteq> []" by auto
    then show ?thesis
      using assms
      unfolding init_def fill_histogram_def Let_def Inr py_true_divide_def
        np_true_divide_def np_amin_def np_amax_def
      by (simp add: Cons)
  qed
qed

lemma init_empty_pool:
  assumes "concat (map array_rows list_atoms) = []"
  shows "init fl rnd list_atoms nb_arg = Inl ValueError"
proof (cases "np_concatenate list_atoms")
  case (Inl e)
  with np_concatenate_Inl [OF Inl] show ?thesis by (simp add: init_def Let_def)
next
  case (Inr descr)
  then have "descr = []"
    using assms by (auto simp: np_concatenate_def split: list.splits if_splits)
  then show ?thesis by (simp add: init_def Let_def Inr np_amin_def)
qed

lemma init_mixed_columns:
  assumes "list_atoms \<noteq> []"
    and "\<not> list_all (\<lambda>a. ncols a = ncols (hd list_atoms)) list_atoms"
  shows "init fl rnd list_atoms nb_arg = Inl ValueError"
  using assms by (cases list_atoms) (simp_all add: init_def Let_def np_concatenate_def)

lemma default_nb_bin_small: "n < 20 \<Longrightarrow> default_nb_bin n = 0"
  unfolding default_nb_bin_def by (rule floor_unique) simp_all

lemma init_density_list:
  assumes "init fl rnd list_atoms nb_arg = Inr h" and "1 \<le> nb_bin h"
  shows "\<exists>ds. map density (bin h) = map Some ds \<and> sum_list ds = 1 \<and>
           length (bin h) = nat (nb_bin h) \<and>
           (\<forall>k < length (bin h). ds ! k =
               real (length (list_norm (bin h ! k))) / real (length (descriptors h)) +
               (1 - (\<Sum>b\<leftarrow>bin h. real (length (list_norm b)) / real (length (descriptors h))))
                 / real_of_int (nb_bin h))"
proof -
  let ?norms = "array_norm_square h" and ?N = "length (descriptors h)"
  let ?B = "nat (nb_bin h)"
  let ?fb = "final_bin fl rnd ?norms (min_dis h) (max_dis h) (nb_bin h)"
  let ?raw = "\<lambda>k. real (length (list_norm (?fb k))) / real ?N"
  let ?miss = "(1 - sum_list (map ?raw [0..<?B])) / real_of_int (nb_bin h)"
  let ?ds = "map (\<lambda>k. ?raw k + ?miss) [0..<?B]"
  note D = init_InrD [OF assms(1)]
  have len: "length ?norms = ?N" by (simp add: D(6))
  have bins: "bin h = map ?fb [0..<?B]" by (rule D(10))
  have dens: "density (?fb k) = Some (?raw k + ?miss)" for k
    by (simp add: density_final_bin raw_density_def final_bin_sel fill_bin_def len empty_bin_sel)
  have 1: "map density (bin h) = map Some ?ds"
    by (simp add: bins dens comp_def)
  have "sum_list ?ds = sum_list (map ?raw [0..<?B]) + real ?B * ?miss"
    by (simp add: sum_list_add_const)
  also have "real ?B = real_of_int (nb_bin h)"
    using assms(2) by simp
  also have "sum_list (map ?raw [0..<?B]) + real_of_int (nb_bin h) * ?miss = 1"
    using assms(2) by simp
  finally have 2: "sum_list ?ds = 1" .
  have 3: "length (bin h) = ?B" by (simp add: bins)
  have 4: "(\<Sum>b\<leftarrow>bin h. real (length (list_norm b)) / real ?N) = sum_list (map ?raw [0..<?B])"
    by (simp add: bins comp_def)
  have 5: "\<forall>k < length (bin h). ?ds ! k =
               real (length (list_norm (bin h ! k))) / real ?N +
               (1 - (\<Sum>b\<leftarrow>bin h. real (length (list_norm b)) / real ?N)) / real_of_int (nb_bin h)"
    unfolding 4 by (simp add: bins)
  from 1 2 3 5 show ?thesis by blast
qed

lemma mset_concat_update:
  "d < length xss \<Longrightarrow>
     mset (concat (xss[d := ys])) + mset (xss ! d) = mset (concat xss) + mset ys"
proof (induction xss arbitrary: d)
  case Nil
  then show ?case by simp
next
  case (Cons xs xss)
  show ?case
  proof (cases d)
    case 0
    then show ?thesis by simp
  next
    case (Suc d')
    with Cons.prems have "d' < length xss" by simp
    from Cons.IH [OF this] show ?thesis by (simp add: Suc ac_simps)
  qed
qed

lemma mset_pop_last:
  assumes "d < length bins" and "list_id (bins ! d) \<noteq> []"
  shows "mset (acc @ [last (list_id (bins ! d))]) +
         mset (concat (map list_id
            (bins[d := (bins ! d)\<lparr>list_id := butlast (list_id (bins ! d))\<rparr>]))) =
         mset acc + mset (concat (map list_id bins))"
proof -
  let ?l = "list_id (bins ! d)"
  have "map list_id (bins[d := (bins ! d)\<lparr>list_id := butlast ?l\<rparr>]) =
        (map list_id bins)[d := butlast ?l]"
    by (simp add: map_update)
  moreover have "mset (concat ((map list_id bins)[d := butlast ?l])) + mset ?l =
        mset (concat (map list_id bins)) + mset (butlast ?l)"
    using mset_concat_update [of d "map list_id bins" "butlast ?l"] assms(1) by simp
  moreover have "mset ?l = mset (butlast ?l) + {#last ?l#}"
    using assms(2) by (metis append_butlast_last_id mset.simps(1,2) mset_append add_mset_add_single union_mset_add_mset_right add.right_neutral)
  ultimately show ?thesis by simp
qed

lemma sample_loop_props:
  "sample_loop bins acc draws = Inr (bins', acc') \<Longrightarrow>
     mset acc' + mset (concat (map list_id bins')) = mset acc + mset (concat (map list_id bins)) \<and>
     length acc' \<le> length acc + length draws \<and>
     map density bins' = map density bins \<and>
     length bins' = length bins"
proof (induction draws arbitrary: bins acc)
  case Nil
  then show ?case by simp
next
  case (Cons d draws)
  show ?case
  proof (cases "d < length bins")
    case False
    with Cons.prems show ?thesis by simp
  next
    case True
    show ?thesis
    proof (cases "list_id (bins ! d) = []")
      case True
      with Cons.prems \<open>d < length bins\<close>
      have "sample_loop bins acc draws = Inr (bins', acc')" by simp
      from Cons.IH [OF this] show ?thesis by simp
    next
      case False
      let ?b = "bins[d := (bins ! d)\<lparr>list_id := butlast (list_id (bins ! d))\<rparr>]"
      let ?a = "acc @ [last (list_id (bins ! d))]"
      from Cons.prems \<open>d < length bins\<close> False
      have "sample_loop ?b ?a draws = Inr (bins', acc')" by simp
      note IH = Cons.IH [OF this]
      have dens: "map density ?b = map density bins"
        using \<open>d < length bins\<close> by (auto simp: list_eq_iff_nth_eq nth_list_update)
      from IH mset_pop_last [OF \<open>d < length bins\<close> False, of acc]
      show ?thesis by (simp only: dens) simp
    qed
  qed
qed

lemma sample_loop_total:
  "\<forall>d\<in>set draws. d < length bins \<Longrightarrow> \<exists>r. sample_loop bins acc draws = Inr r"
proof (induction draws arbitrary: bins acc)
  case Nil
  then show ?case by simp
next
  case (Cons d draws)
  then show ?case by simp
qed

lemma length_masked:
  "length xs = length ys \<Longrightarrow>
     length (filter (\<lambda>(v, i). P v) (zip xs ys)) = length (filter P xs)"
  by (induction xs ys rule: list_induct2) simp_all

lemma length_list_id_final_bin:
  "length (list_id (final_bin fl rnd norms lo hi nb k)) =
     length (list_norm (final_bin fl rnd norms lo hi nb k))"
proof -
  have "length (random_shuffle r xs) = length xs" for r and xs :: "nat list"
    using mset_random_shuffle [of r xs] by (metis size_mset)
  then show ?thesis
    by (simp add: final_bin_sel length_masked)
qed

lemma distinct_concat_upt:
  assumes "\<And>k. k < n \<Longrightarrow> distinct (f k)"
    and "\<And>j k. j < k \<Longrightarrow> k < n \<Longrightarrow> set (f j) \<inter> set (f k) = {}"
  shows "distinct (concat (map f [0..<n]))"
  using assms
proof (induction n)
  case 0
  then show ?case by simp
next
  case (Suc n)
  have "distinct (concat (map f [0..<n]))"
  proof (rule Suc.IH)
    show "distinct (f k)" if "k < n" for k
      using that by (intro Suc.prems(1)) simp
    show "set (f j) \<inter> set (f k) = {}" if "j < k" "k < n" for j k
      using that by (intro Suc.prems(2)) simp_all
  qed
  moreover have "distinct (f n)" by (rule Suc.prems(1)) simp
  moreover have "x \<notin> set (f n)" if "j < n" "x \<in> set (f j)" for j x
  proof -
    have "set (f j) \<inter> set (f n) = {}"
      by (rule Suc.prems(2) [OF that(1)]) simp
    with that(2) show ?thesis by blast
  qed
  ultimately show ?case by auto
qed

lemma final_bins_disjoint:
  assumes "mono fl" "j < k"
  shows "set (list_id (final_bin fl rnd norms lo hi nb j)) \<inter>
         set (list_id (final_bin fl rnd norms lo hi nb k)) = {}"
proof -
  have "\<not> (in_bin (final_bin fl rnd norms lo hi nb j) v \<and> in_bin (final_bin fl rnd norms lo hi nb k) v)" for v
  proof (cases "0 \<le> increment_of fl lo hi nb")
    case True
    have "bound fl lo hi nb (j + 1) \<le> bound fl lo hi nb k"
      by (rule bound_mono [OF assms(1) True]) (use assms(2) in simp)
    then show ?thesis unfolding in_bin_final_bin by linarith
  next
    case False
    then have neg: "increment_of fl lo hi nb \<le> 0" by simp
    have "bound fl lo hi nb (j + 1) \<le> bound fl lo hi nb j"
      by (rule bound_antimono [OF assms(1) neg]) simp
    then show ?thesis unfolding in_bin_final_bin by linarith
  qed
  then show ?thesis
    by (auto simp: set_list_id_final_bin)
qed

lemma sum_list_length_concat:
  "(\<Sum>k\<leftarrow>ks. real (length (f k)) / c) = real (length (concat (map f ks))) / c"
  by (induction ks) (simp_all add: add_divide_distrib)

lemma distinct_ids_bound:
  assumes "distinct xs" and "set xs \<subseteq> {..<n}"
  shows "length xs \<le> n"
proof -
  have "length xs = card (set xs)" using assms(1) by (simp add: distinct_card)
  also have "\<dots> \<le> card {..<n}" by (rule card_mono) (use assms(2) in simp_all)
  finally show ?thesis by simp
qed

text \<open>What holds of every histogram the constructor returns.\<close>

lemma init_ids:
  assumes "init fl rnd list_atoms nb_arg = Inr h" and "mono fl"
  shows "distinct (concat (map list_id (bin h)))"
    and "set (concat (map list_id (bin h))) \<subseteq> {..<length (descriptors h)}"
proof -
  let ?norms = "array_norm_square h"
  let ?fb = "final_bin fl rnd ?norms (min_dis h) (max_dis h) (nb_bin h)"
  note D = init_InrD [OF assms(1)]
  have bins: "map list_id (bin h) = map (\<lambda>k. list_id (?fb k)) [0..<nat (nb_bin h)]"
    by (subst D(10)) simp
  show "distinct (concat (map list_id (bin h)))"
    unfolding bins
    by (rule distinct_concat_upt)
       (simp_all add: distinct_list_id_final_bin final_bins_disjoint [OF assms(2)])
  show "set (concat (map list_id (bin h))) \<subseteq> {..<length (descriptors h)}"
    unfolding bins by (auto simp: set_list_id_final_bin D(6))
qed

lemma init_densities:
  assumes "init fl rnd list_atoms nb_arg = Inr h" and "1 \<le> nb_bin h" and "mono fl"
  shows "np_random_choice_check (nb_bin h) (map density (bin h)) = Inr ()"
proof -
  let ?N = "length (descriptors h)"
  from init_density_list [OF assms(1,2)] obtain ds
    where ds: "map density (bin h) = map Some ds" "sum_list ds = 1"
      and len: "length (bin h) = nat (nb_bin h)"
      and each: "\<forall>k < length (bin h). ds ! k =
               real (length (list_norm (bin h ! k))) / real ?N +
               (1 - (\<Sum>b\<leftarrow>bin h. real (length (list_norm b)) / real ?N))
                 / real_of_int (nb_bin h)"
    by blast
  note D = init_InrD [OF assms(1)]
  let ?fb = "final_bin fl rnd (array_norm_square h) (min_dis h) (max_dis h) (nb_bin h)"
  have lds: "length ds = length (bin h)"
    using ds(1) by (metis length_map)
  have "(\<Sum>b\<leftarrow>bin h. real (length (list_norm b)) / real ?N) =
        (\<Sum>k\<leftarrow>[0..<nat (nb_bin h)]. real (length (list_id (?fb k))) / real ?N)"
    by (subst D(10)) (simp add: comp_def length_list_id_final_bin)
  also have "\<dots> = real (length (concat (map (\<lambda>k. list_id (?fb k)) [0..<nat (nb_bin h)]))) / real ?N"
    by (rule sum_list_length_concat)
  also have "map (\<lambda>k. list_id (?fb k)) [0..<nat (nb_bin h)] = map list_id (bin h)"
    by (subst D(10)) simp
  finally have total: "(\<Sum>b\<leftarrow>bin h. real (length (list_norm b)) / real ?N) =
      real (length (concat (map list_id (bin h)))) / real ?N" .
  have "length (concat (map list_id (bin h))) \<le> ?N"
    by (rule distinct_ids_bound [OF init_ids [OF assms(1,3)]])
  moreover have "0 < ?N" using D(3) by simp
  ultimately have le1: "(\<Sum>b\<leftarrow>bin h. real (length (list_norm b)) / real ?N) \<le> 1"
    unfolding total by simp
  have nonneg: "0 \<le> x" if "x \<in> set ds" for x
  proof -
    from that obtain k where k: "k < length ds" "x = ds ! k"
      by (auto simp: in_set_conv_nth)
    have "0 \<le> (1 - (\<Sum>b\<leftarrow>bin h. real (length (list_norm b)) / real ?N)) / real_of_int (nb_bin h)"
      using le1 assms(2) by simp
    moreover have "0 \<le> real (length (list_norm (bin h ! k))) / real ?N" by simp
    ultimately show ?thesis
      using each k lds by simp
  qed
  have those: "those (map Some ds) = Some ds"
    by (induction ds) simp_all
  have "\<not> list_ex (\<lambda>x. x < 0) ds"
    using nonneg by (auto simp: list_ex_iff not_less)
  then show ?thesis
    unfolding np_random_choice_check_def ds(1) those
    using ds(2) lds len by simp
qed

lemma histogram_sample_InrD:
  assumes "histogram_sample h sel = Inr (h', selected)"
  obtains ids where
    "np_random_choice_check (nb_bin h) (map density (bin h)) = Inr ()"
    "sample_loop (bin h) [] sel = Inr (bin h', ids)"
    "h' = h\<lparr>bin := bin h'\<rparr>"
    "list_all (\<lambda>i. i < length (descriptors h)) ids"
    "selected = map (\<lambda>i. descriptors h ! i) ids"
  using assms
  unfolding histogram_sample_def np_take_def
  by (auto split: sum.splits prod.splits if_splits)

lemma sample_loop_ids:
  assumes "sample_loop bins [] sel = Inr (bins', ids)"
    and "distinct (concat (map list_id bins))"
  shows "distinct ids" "distinct (concat (map list_id bins'))"
    "set ids \<inter> set (concat (map list_id bins')) = {}"
    "set ids \<union> set (concat (map list_id bins')) = set (concat (map list_id bins))"
    "length ids \<le> length sel" "map density bins' = map density bins"
    "length bins' = length bins"
proof -
  from sample_loop_props [OF assms(1)]
  have m: "mset (ids @ concat (map list_id bins')) = mset (concat (map list_id bins))"
    and rest: "length ids \<le> length sel" "map density bins' = map density bins"
      "length bins' = length bins"
    by simp_all
  from mset_eq_imp_distinct_iff [OF m] assms(2)
  have d: "distinct (ids @ concat (map list_id bins'))" by simp
  then show "distinct ids" "distinct (concat (map list_id bins'))"
    "set ids \<inter> set (concat (map list_id bins')) = {}"
    by simp_all
  from mset_eq_setD [OF m]
  show "set ids \<union> set (concat (map list_id bins')) = set (concat (map list_id bins))"
    by simp
  from rest show "length ids \<le> length sel" "map density bins' = map density bins"
      "length bins' = length bins" .
qed

lemma reachable_inv:
  "reachable h \<Longrightarrow>
     distinct (concat (map list_id (bin h))) \<and>
     set (concat (map list_id (bin h))) \<subseteq> {..<length (descriptors h)} \<and>
     id_list h = [0..<length (descriptors h)] \<and>
     (1 \<le> nb_bin h \<longrightarrow>
        np_random_choice_check (nb_bin h) (map density (bin h)) = Inr () \<and>
        length (bin h) = nat (nb_bin h))"
proof (induction rule: reachable.induct)
  case (constructed fl rnd list_atoms nb_bin_arg h)
  note D = init_InrD [OF constructed(2)]
  have "length (bin h) = nat (nb_bin h)" by (subst D(10)) simp
  with init_ids [OF constructed(2,1)] D(7) init_densities [OF constructed(2) _ constructed(1)]
  show ?case by simp
next
  case (sampled h selection_bin h' selected)
  from sampled.hyps(2) obtain ids where
    s: "sample_loop (bin h) [] selection_bin = Inr (bin h', ids)"
    and h': "h' = h\<lparr>bin := bin h'\<rparr>"
    by (rule histogram_sample_InrD)
  from sampled.IH have dist: "distinct (concat (map list_id (bin h)))" by simp
  note L = sample_loop_ids [OF s dist]
  have f: "descriptors h' = descriptors h" "nb_bin h' = nb_bin h" "id_list h' = id_list h"
    by (subst h', simp)+
  from L(4) have "set (concat (map list_id (bin h'))) \<subseteq> set (concat (map list_id (bin h)))"
    by blast
  with sampled.IH L(2,6,7) show ?case
    unfolding f by auto
qed


lemma sample_small_histogram:
  "histogram_sample small_histogram [0, 0] = Inr (small_histogram_sampled, [[1]])"
  by (simp add: histogram_sample_def np_random_choice_check_def small_histogram_def
      small_histogram_sampled_def np_take_def)

lemma reachable_small_histogram: "reachable small_histogram"
  by (rule reachable.constructed [OF exact_simps(1) init_small_dataset])

subsection \<open>The density correction\<close>

text \<open>
  C3. For every constructed histogram with \<open>nb_bin = B \<ge> 1\<close>, the corrected densities
  sum to exactly 1 (in exact arithmetic), and the corrected density of each bin is
  \<open>|bin| / N + (1 - sum_j |bin_j| / N) / B\<close>, where \<open>N\<close> is the number of descriptor rows.
\<close>

theorem corrected_density_sums_to_one:
  assumes "init fl rnd list_atoms nb_arg = Inr h" and "1 \<le> nb_bin h"
  shows "\<exists>ds. map density (bin h) = map Some ds \<and> sum_list ds = 1 \<and>
           length (bin h) = nat (nb_bin h) \<and>
           (\<forall>k < length (bin h). ds ! k =
               real (length (list_norm (bin h ! k))) / real (length (descriptors h)) +
               (1 - (\<Sum>b\<leftarrow>bin h. real (length (list_norm b)) / real (length (descriptors h))))
                 / real_of_int (nb_bin h))"
  by (rule init_density_list [OF assms])

theorem corrected_density_sums_to_one_witness:
  "init exact keep_order small_dataset (Some 2) = Inr small_histogram \<and> 1 \<le> nb_bin small_histogram \<and>
   (\<exists>ds. map density (bin small_histogram) = map Some ds \<and> sum_list ds = 1 \<and>
          length (bin small_histogram) = nat (nb_bin small_histogram))"
proof -
  have n: "1 \<le> nb_bin small_histogram"
    by (simp add: small_histogram_def)
  from corrected_density_sums_to_one [OF init_small_dataset n]
  show ?thesis using init_small_dataset n by blast
qed

subsection \<open>Every norm between the first and the last bound lies in exactly one bin\<close>

text \<open>
  C1, as the code has it. For every constructed histogram with \<open>nb_bin \<ge> 1\<close>, under any
  monotone rounding that keeps 0 and the global minimum (they are floats): a squared
  norm strictly above the global minimum and at most the upper bound of the last bin
  is in exactly one bin (its id in exactly one \<open>list_id\<close>, its value in exactly one
  \<open>list_norm\<close>); a norm equal to the global minimum, or above the upper bound of the
  last bin, is in no bin; each bin holds, without repetition, the ids of the norms \<open>v\<close>
  with \<open>min < v \<le> max\<close>; the first lower bound is the global minimum, each upper bound
  is the next lower bound, and the last upper bound is \<open>min_dis + nb_bin * increment\<close>
  as computed. In exact arithmetic the last upper bound is the global maximum, and
  every norm above the global minimum is in exactly one bin.
\<close>

theorem bins_partition_above_minimum:
  assumes "init fl rnd list_atoms nb_arg = Inr h" and "1 \<le> nb_bin h"
    and "mono fl" and "fl 0 = 0" and "fl (min_dis h) = min_dis h"
  shows
   "(\<forall>i < length (array_norm_square h).
        (min_dis h < array_norm_square h ! i \<and>
         array_norm_square h ! i \<le> max_bin (bin h ! (length (bin h) - 1)) \<longrightarrow>
           (\<exists>!k. k < length (bin h) \<and> i \<in> set (list_id (bin h ! k))) \<and>
           (\<exists>!k. k < length (bin h) \<and> array_norm_square h ! i \<in> set (list_norm (bin h ! k)))) \<and>
        (array_norm_square h ! i = min_dis h \<or>
         max_bin (bin h ! (length (bin h) - 1)) < array_norm_square h ! i \<longrightarrow>
           (\<forall>k < length (bin h). i \<notin> set (list_id (bin h ! k)) \<and>
                                array_norm_square h ! i \<notin> set (list_norm (bin h ! k))))) \<and>
    (\<forall>k < length (bin h).
        distinct (list_id (bin h ! k)) \<and>
        set (list_id (bin h ! k)) =
          {i. i < length (array_norm_square h) \<and> in_bin (bin h ! k) (array_norm_square h ! i)} \<and>
        list_norm (bin h ! k) = filter (in_bin (bin h ! k)) (array_norm_square h)) \<and>
    length (bin h) = nat (nb_bin h) \<and>
    min_bin (bin h ! 0) = min_dis h \<and>
    max_bin (bin h ! (length (bin h) - 1)) =
      bound fl (min_dis h) (max_dis h) (nb_bin h) (nat (nb_bin h)) \<and>
    (\<forall>k. Suc k < length (bin h) \<longrightarrow> max_bin (bin h ! k) = min_bin (bin h ! Suc k)) \<and>
    (\<forall>k < length (bin h). min_bin (bin h ! k) \<le> max_bin (bin h ! k)) \<and>
    (fl = exact \<longrightarrow>
       max_bin (bin h ! (length (bin h) - 1)) = max_dis h \<and>
       (\<forall>i < length (array_norm_square h). min_dis h < array_norm_square h ! i \<longrightarrow>
           (\<exists>!k. k < length (bin h) \<and> i \<in> set (list_id (bin h ! k))) \<and>
           (\<exists>!k. k < length (bin h) \<and> array_norm_square h ! i \<in> set (list_norm (bin h ! k)))))"
proof -
  let ?norms = "array_norm_square h" and ?lo = "min_dis h" and ?hi = "max_dis h"
  let ?B = "nat (nb_bin h)"
  let ?b = "bound fl ?lo ?hi (nb_bin h)"
  let ?fb = "final_bin fl rnd ?norms ?lo ?hi (nb_bin h)"
  let ?last = "max_bin (bin h ! (length (bin h) - 1))"
  note D = init_InrD [OF assms(1)]
  have bins: "bin h = map ?fb [0..<?B]" by (rule D(10))
  have len: "length (bin h) = ?B" by (simp add: bins)
  have nth: "bin h ! k = ?fb k" if "k < ?B" for k using that by (simp add: bins)
  have Bpos: "0 < ?B" using assms(2) by simp
  have nbpos: "0 < nb_bin h" using assms(2) by simp
  have ne: "?norms \<noteq> []" using D(3,6) by simp
  have le_hi: "v \<le> ?hi" if "v \<in> set ?norms" for v
    unfolding D(9) using that by simp
  have lohi: "?lo \<le> ?hi"
    unfolding D(8,9) using ne by (simp add: Min_le_iff)
  have inc: "0 \<le> increment_of fl ?lo ?hi (nb_bin h)"
    by (rule increment_nonneg [OF assms(3,4) lohi nbpos])
  have mono_b: "?b j \<le> ?b k" if "j \<le> k" for j k
    by (rule bound_mono [OF assms(3) inc that])
  have b0: "?b 0 = ?lo" by (rule bound_0 [OF assms(4,5)])
  have inb: "in_bin (?fb k) v \<longleftrightarrow> ?b k < v \<and> v \<le> ?b (k + 1)" for k v
    by (rule in_bin_final_bin)
  have "?B - 1 + 1 = ?B" using Bpos by simp
  then have F: "?last = ?b ?B"
    using Bpos by (simp add: len nth final_bin_sel)
  have ex1: "\<exists>!k. k < ?B \<and> in_bin (?fb k) v" if "?lo < v" "v \<le> ?b ?B" for v
    unfolding inb
    by (rule seq_index_exists_unique [of ?b, OF mono_b]) (simp_all add: b0 that)
  have range: "?lo < v \<and> v \<le> ?b ?B" if "k < ?B" "in_bin (?fb k) v" for k v
  proof -
    from that(2) have "?b k < v" "v \<le> ?b (k + 1)" by (simp_all add: inb)
    from seq_index_range [of ?b, OF mono_b that(1) this] show ?thesis by (simp add: b0)
  qed
  have ids: "i \<in> set (list_id (?fb k)) \<longleftrightarrow> i < length ?norms \<and> in_bin (?fb k) (?norms ! i)" for i k
    by (simp add: set_list_id_final_bin)
  have vals: "v \<in> set (list_norm (?fb k)) \<longleftrightarrow> v \<in> set ?norms \<and> in_bin (?fb k) v" for v k
    by (auto simp add: final_bin_sel in_bin_final_empty)
  have A: "(\<exists>!k. k < length (bin h) \<and> i \<in> set (list_id (bin h ! k))) \<and>
           (\<exists>!k. k < length (bin h) \<and> ?norms ! i \<in> set (list_norm (bin h ! k)))"
    if "i < length ?norms" "?lo < ?norms ! i" "?norms ! i \<le> ?b ?B" for i
  proof -
    have m: "?norms ! i \<in> set ?norms" using that(1) by simp
    from ex1 [OF that(2,3)] obtain k0
      where k0: "k0 < ?B" "in_bin (?fb k0) (?norms ! i)"
        and u: "\<And>k. k < ?B \<Longrightarrow> in_bin (?fb k) (?norms ! i) \<Longrightarrow> k = k0"
      by blast
    have 1: "\<exists>!k. k < length (bin h) \<and> i \<in> set (list_id (bin h ! k))"
    proof (rule ex1I [of _ k0])
      show "k0 < length (bin h) \<and> i \<in> set (list_id (bin h ! k0))"
        using k0 that(1) by (simp add: len nth ids)
    next
      fix k assume a: "k < length (bin h) \<and> i \<in> set (list_id (bin h ! k))"
      then have kB: "k < ?B" by (simp add: len)
      from a have "in_bin (?fb k) (?norms ! i)" by (simp add: nth [OF kB] ids)
      then show "k = k0" by (rule u [OF kB])
    qed
    have 2: "\<exists>!k. k < length (bin h) \<and> ?norms ! i \<in> set (list_norm (bin h ! k))"
    proof (rule ex1I [of _ k0])
      show "k0 < length (bin h) \<and> ?norms ! i \<in> set (list_norm (bin h ! k0))"
        using k0 m by (simp add: len nth vals)
    next
      fix k assume a: "k < length (bin h) \<and> ?norms ! i \<in> set (list_norm (bin h ! k))"
      then have kB: "k < ?B" by (simp add: len)
      from a have "in_bin (?fb k) (?norms ! i)" by (simp add: nth [OF kB] vals)
      then show "k = k0" by (rule u [OF kB])
    qed
    from 1 2 show ?thesis ..
  qed
  have Bm: "\<forall>k < length (bin h). i \<notin> set (list_id (bin h ! k)) \<and> ?norms ! i \<notin> set (list_norm (bin h ! k))"
    if "?norms ! i = ?lo \<or> ?b ?B < ?norms ! i" for i
  proof (intro allI impI)
    fix k assume "k < length (bin h)"
    then have kB: "k < ?B" by (simp add: len)
    have "\<not> in_bin (?fb k) (?norms ! i)"
    proof
      assume "in_bin (?fb k) (?norms ! i)"
      from range [OF kB this] that show False by auto
    qed
    then show "i \<notin> set (list_id (bin h ! k)) \<and> ?norms ! i \<notin> set (list_norm (bin h ! k))"
      by (simp add: nth [OF kB] ids vals)
  qed
  have AB: "\<forall>i < length ?norms.
        (?lo < ?norms ! i \<and> ?norms ! i \<le> ?last \<longrightarrow>
           (\<exists>!k. k < length (bin h) \<and> i \<in> set (list_id (bin h ! k))) \<and>
           (\<exists>!k. k < length (bin h) \<and> ?norms ! i \<in> set (list_norm (bin h ! k)))) \<and>
        (?norms ! i = ?lo \<or> ?last < ?norms ! i \<longrightarrow>
           (\<forall>k < length (bin h). i \<notin> set (list_id (bin h ! k)) \<and>
                                ?norms ! i \<notin> set (list_norm (bin h ! k))))"
    unfolding F using A Bm by blast
  have C: "\<forall>k < length (bin h).
        distinct (list_id (bin h ! k)) \<and>
        set (list_id (bin h ! k)) = {i. i < length ?norms \<and> in_bin (bin h ! k) (?norms ! i)} \<and>
        list_norm (bin h ! k) = filter (in_bin (bin h ! k)) ?norms"
    by (simp add: len nth distinct_list_id_final_bin set_list_id_final_bin)
       (simp add: final_bin_sel in_bin_final_empty)
  have E: "min_bin (bin h ! 0) = ?lo"
    using Bpos by (simp add: nth final_bin_sel b0)
  have G: "\<forall>k. Suc k < length (bin h) \<longrightarrow> max_bin (bin h ! k) = min_bin (bin h ! Suc k)"
    by (simp add: len nth final_bin_sel)
  have H: "\<forall>k < length (bin h). min_bin (bin h ! k) \<le> max_bin (bin h ! k)"
  proof (intro allI impI)
    fix k assume "k < length (bin h)"
    then have kB: "k < ?B" by (simp add: len)
    have "?b k \<le> ?b (k + 1)" by (rule mono_b) simp
    then show "min_bin (bin h ! k) \<le> max_bin (bin h ! k)"
      by (simp only: nth [OF kB] final_bin_sel)
  qed
  have X: "fl = exact \<longrightarrow>
       ?last = ?hi \<and>
       (\<forall>i < length ?norms. ?lo < ?norms ! i \<longrightarrow>
           (\<exists>!k. k < length (bin h) \<and> i \<in> set (list_id (bin h ! k))) \<and>
           (\<exists>!k. k < length (bin h) \<and> ?norms ! i \<in> set (list_norm (bin h ! k))))"
  proof
    assume e: "fl = exact"
    have top: "?b ?B = ?hi"
      unfolding e using nbpos by (simp add: bound_exact)
    have "(\<exists>!k. k < length (bin h) \<and> i \<in> set (list_id (bin h ! k))) \<and>
           (\<exists>!k. k < length (bin h) \<and> ?norms ! i \<in> set (list_norm (bin h ! k)))"
      if "i < length ?norms" "?lo < ?norms ! i" for i
    proof (rule A [OF that])
      show "?norms ! i \<le> ?b ?B"
        unfolding top by (rule le_hi) (use that(1) in simp)
    qed
    then show "?last = ?hi \<and>
       (\<forall>i < length ?norms. ?lo < ?norms ! i \<longrightarrow>
           (\<exists>!k. k < length (bin h) \<and> i \<in> set (list_id (bin h ! k))) \<and>
           (\<exists>!k. k < length (bin h) \<and> ?norms ! i \<in> set (list_norm (bin h ! k))))"
      using F top by simp
  qed
  show ?thesis
    by (rule conjI [OF AB conjI [OF C conjI [OF len conjI [OF E conjI [OF F conjI [OF G conjI [OF H X]]]]]]])
qed

theorem bins_partition_above_minimum_witness:
  "init exact keep_order small_dataset (Some 2) = Inr small_histogram \<and>
   1 \<le> nb_bin small_histogram \<and> mono exact \<and> exact 0 = 0 \<and>
   exact (min_dis small_histogram) = min_dis small_histogram \<and>
   (1::nat) < length (array_norm_square small_histogram) \<and>
   min_dis small_histogram < array_norm_square small_histogram ! 1 \<and>
   array_norm_square small_histogram ! 1 \<le>
     max_bin (bin small_histogram ! (length (bin small_histogram) - 1)) \<and>
   (\<exists>!k. k < length (bin small_histogram) \<and> 1 \<in> set (list_id (bin small_histogram ! k))) \<and>
   min_bin (bin small_histogram ! 0) = min_dis small_histogram \<and>
   max_bin (bin small_histogram ! (length (bin small_histogram) - 1)) = max_dis small_histogram"
proof -
  have n: "1 \<le> nb_bin small_histogram"
    and i: "(1::nat) < length (array_norm_square small_histogram)"
    and v: "min_dis small_histogram < array_norm_square small_histogram ! 1"
    and w: "array_norm_square small_histogram ! 1 \<le>
              max_bin (bin small_histogram ! (length (bin small_histogram) - 1))"
    by (simp_all add: small_histogram_def)
  have z: "exact 0 = 0" and m: "exact (min_dis small_histogram) = min_dis small_histogram"
    by (simp_all add: exact_def)
  note T = bins_partition_above_minimum [OF init_small_dataset n exact_simps(1) z m]
  from conjunct1 [OF T] i v w
  have u: "\<exists>!k. k < length (bin small_histogram) \<and> 1 \<in> set (list_id (bin small_histogram ! k))"
    by blast
  from T have e: "min_bin (bin small_histogram ! 0) = min_dis small_histogram"
    by (intro conjunct1 [OF conjunct2 [OF conjunct2 [OF conjunct2 [OF T]]]])
  from T have "exact = exact \<longrightarrow>
       max_bin (bin small_histogram ! (length (bin small_histogram) - 1)) = max_dis small_histogram \<and>
       (\<forall>i < length (array_norm_square small_histogram).
           min_dis small_histogram < array_norm_square small_histogram ! i \<longrightarrow>
           (\<exists>!k. k < length (bin small_histogram) \<and> i \<in> set (list_id (bin small_histogram ! k))) \<and>
           (\<exists>!k. k < length (bin small_histogram) \<and>
                 array_norm_square small_histogram ! i \<in> set (list_norm (bin small_histogram ! k))))"
    by (intro conjunct2 [OF conjunct2 [OF conjunct2 [OF conjunct2 [OF conjunct2 [OF conjunct2 [OF conjunct2 [OF T]]]]]]])
  then have x: "max_bin (bin small_histogram ! (length (bin small_histogram) - 1)) = max_dis small_histogram"
    by simp
  from init_small_dataset n exact_simps(1) z m i v w u e x show ?thesis by (intro conjI)
qed

text \<open>
  The claim as stated fails: in the small dataset the norm of id 0 is the global
  minimum, and it is in neither of the two bins.
\<close>

theorem global_minimum_in_no_bin:
  "init exact keep_order small_dataset (Some 2) = Inr small_histogram \<and>
   array_norm_square small_histogram ! 0 = min_dis small_histogram \<and>
   length (bin small_histogram) = 2 \<and>
   0 \<notin> set (list_id (bin small_histogram ! 0)) \<and>
   0 \<notin> set (list_id (bin small_histogram ! 1)) \<and>
   array_norm_square small_histogram ! 0 \<notin> set (list_norm (bin small_histogram ! 0)) \<and>
   array_norm_square small_histogram ! 0 \<notin> set (list_norm (bin small_histogram ! 1))"
  using init_small_dataset by (simp add: small_histogram_def)

lemma final_bin_range:
  assumes "mono fl" "fl 0 = 0" "lo \<le> hi" "0 < nb" "k < nat nb"
    and "in_bin (final_bin fl rnd norms lo hi nb k) v"
  shows "bound fl lo hi nb 0 < v \<and> v \<le> bound fl lo hi nb (nat nb)"
proof -
  have inc: "0 \<le> increment_of fl lo hi nb" by (rule increment_nonneg [OF assms(1-4)])
  have mono_b: "bound fl lo hi nb i \<le> bound fl lo hi nb j" if "i \<le> j" for i j
    by (rule bound_mono [OF assms(1) inc that])
  from assms(6) have "bound fl lo hi nb k < v" "v \<le> bound fl lo hi nb (k + 1)"
    by (simp_all add: in_bin_final_bin)
  from seq_index_range [of "bound fl lo hi nb", OF mono_b assms(5) this] show ?thesis .
qed

text \<open>
  In \<open>float64\<close> arithmetic the last upper bound can round below the global maximum:
  for the squared norms 0 and 49 and eleven bins the increment is the float nearest to
  \<open>49 / 11\<close>, eleven times the increment rounds to \<open>49 - 1 / 2 ^ 47\<close>, and the norm 49 of
  id 1 is in no bin.
\<close>

lemma last_bound_rounds_below_maximum:
  "\<exists>h. init float64 keep_order two_descriptors (Some 11) = Inr h \<and>
       array_norm_square h = [0, 49] \<and> min_dis h = 0 \<and> max_dis h = 49 \<and>
       length (bin h) = 11 \<and>
       max_bin (bin h ! 10) = 49 - 1 / 2 ^ 47 \<and>
       (\<forall>k < 11. 1 \<notin> set (list_id (bin h ! k)) \<and> 49 \<notin> set (list_norm (bin h ! k)))"
proof -
  obtain h where h: "init float64 keep_order two_descriptors (Some 11) = Inr h"
    using init_succeeds [of two_descriptors "Some 11" float64 keep_order]
    by (auto simp: two_descriptors_def)
  note D = init_InrD [OF h]
  let ?fb = "final_bin float64 keep_order [0, 49] 0 49 11"
  have norms: "array_norm_square h = [0, 49]"
    by (simp add: D(6) D(2) two_descriptors_def norm_square_def)
  have lo: "min_dis h = 0" by (simp add: D(8) norms)
  have hi: "max_dis h = 49" by (simp add: D(9) norms)
  have nb: "nb_bin h = 11" using D(4) by simp
  have bins: "bin h = map ?fb [0..<11]"
    using D(10) by (simp only: norms lo hi nb) simp
  have f49: "float64 49 = 49"
    using float64_eval [of 5 49] by (simp add: round_half_even_def)
  have fq: "float64 (49 / 11) = 5015372312298961 / 2 ^ 50"
    using float64_eval [of 2 "49 / 11"] by (simp add: round_half_even_def Let_def)
  have fp: "float64 (11 * (5015372312298961 / 2 ^ 50)) = 49 - 1 / 2 ^ 47"
    using float64_eval [of 5 "11 * (5015372312298961 / 2 ^ 50)"]
    by (simp add: round_half_even_def Let_def)
  have fl: "float64 (49 - 1 / 2 ^ 47) = 49 - 1 / 2 ^ 47"
    using float64_eval [of 5 "49 - 1 / 2 ^ 47"] by (simp add: round_half_even_def Let_def)
  have inc: "increment_of float64 0 49 11 = 5015372312298961 / 2 ^ 50"
    unfolding increment_of_def by (simp only: diff_zero f49 of_int_numeral fq)
  have "bound float64 0 49 11 11 = float64 (float64 (11 * (5015372312298961 / 2 ^ 50)))"
    unfolding bound_def inc by (simp only: add_0 of_nat_numeral)
  then have last: "bound float64 0 49 11 11 = 49 - 1 / 2 ^ 47"
    by (simp only: fp fl)
  have len: "length (bin h) = 11" by (simp add: bins)
  have nth: "bin h ! k = ?fb k" if "k < 11" for k using that by (simp add: bins)
  have top: "max_bin (bin h ! 10) = 49 - 1 / 2 ^ 47"
    using last by (simp add: nth final_bin_sel)
  have none: "\<not> in_bin (?fb k) 49" if "k < 11" for k
  proof
    assume "in_bin (?fb k) 49"
    from final_bin_range [OF mono_float64 float64_0 _ _ _ this] that
    have "49 \<le> bound float64 0 49 11 (nat 11)" by simp
    then have "(49::real) \<le> 49 - 1 / 2 ^ 47" using last by simp
    then show False by simp
  qed
  have "1 \<notin> set (list_id (bin h ! k)) \<and> 49 \<notin> set (list_norm (bin h ! k))" if "k < 11" for k
  proof -
    have "1 \<notin> set (list_id (?fb k))"
      using none [OF that] by (simp only: set_list_id_final_bin) simp
    moreover have "49 \<notin> set (list_norm (?fb k))"
      using none [OF that] by (simp add: final_bin_sel in_bin_final_empty)
    ultimately show ?thesis by (simp only: nth [OF that]) simp
  qed
  with h norms lo hi len top show ?thesis by blast
qed

subsection \<open>The constructor needs a nonzero number of bins\<close>

text \<open>
  C10, as the code has it. The default \<open>int(0.05 * len(list_atoms))\<close> is 0 for fewer than
  20 structures; the bin width then divides by zero (a non-finite NumPy value), and
  the constructor raises. With \<open>nb_bin \<ge> 1\<close> the division is well defined, and the
  constructor returns a histogram of \<open>nb_bin\<close> bins provided the descriptor arrays have
  the same number of columns and the pool holds at least one descriptor row.
\<close>

theorem constructor_needs_positive_nb_bin:
  "(n < 20 \<longrightarrow> default_nb_bin n = 0) \<and>
   np_true_divide x (real_of_int 0) = None \<and>
   (1 \<le> nb \<longrightarrow> np_true_divide x (real_of_int nb) = Some (x / real_of_int nb)) \<and>
   (length list_atoms < 20 \<longrightarrow> (\<exists>e. init fl rnd list_atoms None = Inl e)) \<and>
   (1 \<le> (case nb_arg of None \<Rightarrow> default_nb_bin (length list_atoms) | Some n \<Rightarrow> n) \<and>
      list_all (\<lambda>a. ncols a = ncols (hd list_atoms)) list_atoms \<and>
      concat (map array_rows list_atoms) \<noteq> [] \<longrightarrow>
      (\<exists>h. init fl rnd list_atoms nb_arg = Inr h \<and>
           nb_bin h = (case nb_arg of None \<Rightarrow> default_nb_bin (length list_atoms) | Some n \<Rightarrow> n) \<and>
           length (bin h) = nat (nb_bin h)))"
proof -
  have 1: "n < 20 \<longrightarrow> default_nb_bin n = 0"
    by (simp add: default_nb_bin_small)
  have 2: "np_true_divide x (real_of_int 0) = None"
    by (simp add: np_true_divide_def)
  have 3: "1 \<le> nb \<longrightarrow> np_true_divide x (real_of_int nb) = Some (x / real_of_int nb)"
    by (simp add: np_true_divide_def)
  have 4: "\<exists>e. init fl rnd list_atoms None = Inl e" if "length list_atoms < 20"
    by (rule init_zero_bins) (simp add: default_nb_bin_small [OF that])
  have 5: "\<exists>h. init fl rnd list_atoms nb_arg = Inr h \<and>
           nb_bin h = (case nb_arg of None \<Rightarrow> default_nb_bin (length list_atoms) | Some n \<Rightarrow> n) \<and>
           length (bin h) = nat (nb_bin h)"
    if "1 \<le> (case nb_arg of None \<Rightarrow> default_nb_bin (length list_atoms) | Some n \<Rightarrow> n)"
      and "list_all (\<lambda>a. ncols a = ncols (hd list_atoms)) list_atoms"
      and "concat (map array_rows list_atoms) \<noteq> []"
  proof -
    from that obtain h where h: "init fl rnd list_atoms nb_arg = Inr h"
      using init_succeeds [of list_atoms nb_arg fl rnd] by auto
    note D = init_InrD [OF h]
    have "length (bin h) = nat (nb_bin h)" by (subst D(10)) simp
    with h D(4) show ?thesis by blast
  qed
  from 1 2 3 4 5 show ?thesis by blast
qed

theorem constructor_needs_positive_nb_bin_witness:
  "(19::nat) < 20 \<and> default_nb_bin 19 = 0 \<and> (1::int) \<le> 2 \<and>
   np_true_divide 4 (real_of_int 2) = Some (4 / real_of_int 2) \<and>
   length small_dataset < 20 \<and> (\<exists>e. init exact keep_order small_dataset None = Inl e) \<and>
   list_all (\<lambda>a. ncols a = ncols (hd small_dataset)) small_dataset \<and>
   concat (map array_rows small_dataset) \<noteq> [] \<and>
   (\<exists>h. init exact keep_order small_dataset (Some 2) = Inr h \<and> nb_bin h = 2 \<and>
        length (bin h) = nat (nb_bin h))"
proof -
  have a: "(19::nat) < 20" and b: "(1::int) \<le> 2" and c: "length small_dataset < 20"
    and d: "concat (map array_rows small_dataset) \<noteq> []"
    and e: "list_all (\<lambda>a. ncols a = ncols (hd small_dataset)) small_dataset"
    by (simp_all add: small_dataset_def)
  from constructor_needs_positive_nb_bin [of 19 4 2 small_dataset exact keep_order "Some 2"]
  show ?thesis using a b c d e by simp
qed

text \<open>
  The claim as stated fails: with \<open>nb_bin = 1\<close> the constructor still raises on an empty
  list of structures and on descriptor arrays of different numbers of columns
  (\<open>np.concatenate\<close>), and on structures without atoms (\<open>np.amin\<close>).
\<close>

theorem constructor_fails_on_empty_pool:
  "init exact keep_order [] (Some 1) = Inl ValueError \<and>
   init exact keep_order [\<lparr>ncols = 1, array_rows = []\<rparr>] (Some 1) = Inl ValueError \<and>
   init exact keep_order
     [\<lparr>ncols = 1, array_rows = [[0], [1]]\<rparr>, \<lparr>ncols = 2, array_rows = [[0, 1]]\<rparr>] (Some 1) =
     Inl ValueError"
  by (simp add: init_def np_concatenate_def np_amin_def Let_def)

subsection \<open>Sampling\<close>

text \<open>
  C2. For every histogram a program can hold (constructed, or left by earlier calls of
  \<open>histogram_sample\<close>) and every list of \<open>k\<close> drawn bin indices: when
  \<open>histogram_sample\<close> returns, it returns the descriptor rows of at most \<open>k\<close> ids, which
  are ids of the pool, pairwise distinct, and no longer in any bin; it does return
  when \<open>nb_bin \<ge> 1\<close> and the drawn indices are bin keys; a draw whose bin has an empty
  \<open>list_id\<close> contributes nothing; and the returned size can be strictly less than \<open>k\<close>.
\<close>

theorem histogram_sample_at_most_k_without_repeats:
  assumes "reachable h"
  shows
   "(\<forall>h' selected. histogram_sample h selection_bin = Inr (h', selected) \<longrightarrow>
        (\<exists>ids. sample_loop (bin h) [] selection_bin = Inr (bin h', ids) \<and>
               selected = map (\<lambda>i. descriptors h ! i) ids \<and>
               length selected \<le> length selection_bin \<and>
               distinct ids \<and> set ids \<subseteq> set (id_list h) \<and>
               set ids \<inter> set (concat (map list_id (bin h'))) = {})) \<and>
    (1 \<le> nb_bin h \<and> (\<forall>d \<in> set selection_bin. d < nat (nb_bin h)) \<longrightarrow>
        (\<exists>h' selected. histogram_sample h selection_bin = Inr (h', selected))) \<and>
    (\<forall>bins acc d rest. d < length bins \<and> list_id (bins ! d) = [] \<longrightarrow>
        sample_loop bins acc (d # rest) = sample_loop bins acc rest) \<and>
    (\<exists>h0 sel h' selected. reachable h0 \<and> histogram_sample h0 sel = Inr (h', selected) \<and>
        length selected < length sel)"
proof -
  note I = reachable_inv [OF assms]
  from I have dist: "distinct (concat (map list_id (bin h)))"
    and sub: "set (concat (map list_id (bin h))) \<subseteq> {..<length (descriptors h)}"
    and idl: "id_list h = [0..<length (descriptors h)]"
    by simp_all
  have A: "\<exists>ids. sample_loop (bin h) [] selection_bin = Inr (bin h', ids) \<and>
               selected = map (\<lambda>i. descriptors h ! i) ids \<and>
               length selected \<le> length selection_bin \<and>
               distinct ids \<and> set ids \<subseteq> set (id_list h) \<and>
               set ids \<inter> set (concat (map list_id (bin h'))) = {}"
    if "histogram_sample h selection_bin = Inr (h', selected)" for h' selected
  proof -
    from that obtain ids where
      s: "sample_loop (bin h) [] selection_bin = Inr (bin h', ids)"
      and sel: "selected = map (\<lambda>i. descriptors h ! i) ids"
      by (rule histogram_sample_InrD)
    note L = sample_loop_ids [OF s dist]
    from L(4) have "set ids \<subseteq> set (concat (map list_id (bin h)))" by blast
    then have "set ids \<subseteq> {..<length (descriptors h)}" using sub by (rule subset_trans)
    then have 1: "set ids \<subseteq> set (id_list h)"
      unfolding idl by (simp add: lessThan_atLeast0)
    have 2: "length selected \<le> length selection_bin"
      using L(5) by (simp add: sel)
    from s sel 2 L(1) 1 L(3) show ?thesis by (intro exI [of _ ids] conjI)
  qed
  then have A': "\<forall>h' selected. histogram_sample h selection_bin = Inr (h', selected) \<longrightarrow>
        (\<exists>ids. sample_loop (bin h) [] selection_bin = Inr (bin h', ids) \<and>
               selected = map (\<lambda>i. descriptors h ! i) ids \<and>
               length selected \<le> length selection_bin \<and>
               distinct ids \<and> set ids \<subseteq> set (id_list h) \<and>
               set ids \<inter> set (concat (map list_id (bin h'))) = {})"
    by (intro allI impI)
  have True
  proof -
    show ?thesis ..
  qed
  have B: "\<exists>h' selected. histogram_sample h selection_bin = Inr (h', selected)"
    if n: "1 \<le> nb_bin h" and r: "\<forall>d \<in> set selection_bin. d < nat (nb_bin h)"
  proof -
    from I n have chk: "np_random_choice_check (nb_bin h) (map density (bin h)) = Inr ()"
      and len: "length (bin h) = nat (nb_bin h)" by simp_all
    from r have "\<forall>d \<in> set selection_bin. d < length (bin h)" by (simp add: len)
    from sample_loop_total [OF this, of "[]"] obtain r
      where "sample_loop (bin h) [] selection_bin = Inr r" ..
    then obtain bins' ids
      where s: "sample_loop (bin h) [] selection_bin = Inr (bins', ids)" by (cases r) simp
    note L = sample_loop_ids [OF s dist]
    from L(4) have "set ids \<subseteq> set (concat (map list_id (bin h)))" by blast
    then have "set ids \<subseteq> {..<length (descriptors h)}" using sub by (rule subset_trans)
    then have "list_all (\<lambda>i. i < length (descriptors h)) ids"
      by (auto simp: list_all_iff)
    then show ?thesis
      by (simp add: histogram_sample_def chk s np_take_def)
  qed
  then have B': "1 \<le> nb_bin h \<and> (\<forall>d \<in> set selection_bin. d < nat (nb_bin h)) \<longrightarrow>
        (\<exists>h' selected. histogram_sample h selection_bin = Inr (h', selected))"
    by (intro impI) (elim conjE)
  have C: "\<forall>bins acc d rest. d < length bins \<and> list_id (bins ! d) = [] \<longrightarrow>
        sample_loop bins acc (d # rest) = sample_loop bins acc rest"
    by simp
  have E: "\<exists>h0 sel h' selected. reachable h0 \<and> histogram_sample h0 sel = Inr (h', selected) \<and>
        length selected < length sel"
    using reachable_small_histogram sample_small_histogram
    by (intro exI [of _ small_histogram] exI [of _ "[0, 0]"] exI [of _ small_histogram_sampled]
        exI [of _ "[[1]]"]) simp
  show ?thesis by (rule conjI [OF A' conjI [OF B' conjI [OF C E]]])
qed

theorem histogram_sample_at_most_k_without_repeats_witness:
  "reachable small_histogram \<and> 1 \<le> nb_bin small_histogram \<and>
   list_all (\<lambda>d. d < nat (nb_bin small_histogram)) [0, 0] \<and>
   histogram_sample small_histogram [0, 0] = Inr (small_histogram_sampled, [[1]]) \<and>
   (\<exists>ids. sample_loop (bin small_histogram) [] [0, 0] = Inr (bin small_histogram_sampled, ids) \<and>
          [[1]] = map (\<lambda>i. descriptors small_histogram ! i) ids \<and> distinct ids \<and>
          set ids \<subseteq> set (id_list small_histogram))"
proof -
  have n: "1 \<le> nb_bin small_histogram"
    and r: "list_all (\<lambda>d. d < nat (nb_bin small_histogram)) [0, 0]"
    by (simp_all add: small_histogram_def)
  note T = histogram_sample_at_most_k_without_repeats [OF reachable_small_histogram, of "[0, 0]"]
  from T have "\<forall>h' selected. histogram_sample small_histogram [0, 0] = Inr (h', selected) \<longrightarrow>
        (\<exists>ids. sample_loop (bin small_histogram) [] [0, 0] = Inr (bin h', ids) \<and>
               selected = map (\<lambda>i. descriptors small_histogram ! i) ids \<and>
               length selected \<le> length [0::nat, 0] \<and>
               distinct ids \<and> set ids \<subseteq> set (id_list small_histogram) \<and>
               set ids \<inter> set (concat (map list_id (bin h'))) = {})"
    by (rule conjunct1)
  from this [rule_format, OF sample_small_histogram]
  have "\<exists>ids. sample_loop (bin small_histogram) [] [0, 0] = Inr (bin small_histogram_sampled, ids) \<and>
          [[1]] = map (\<lambda>i. descriptors small_histogram ! i) ids \<and> distinct ids \<and>
          set ids \<subseteq> set (id_list small_histogram)"
  proof -
    assume "\<exists>ids. sample_loop (bin small_histogram) [] [0, 0] = Inr (bin small_histogram_sampled, ids) \<and>
         [[1]] = map (\<lambda>i. descriptors small_histogram ! i) ids \<and>
         length [[1::real]] \<le> length [0::nat, 0] \<and> distinct ids \<and>
         set ids \<subseteq> set (id_list small_histogram) \<and>
         set ids \<inter> set (concat (map list_id (bin small_histogram_sampled))) = {}"
    then obtain ids where a: "sample_loop (bin small_histogram) [] [0, 0] = Inr (bin small_histogram_sampled, ids) \<and>
         [[1]] = map (\<lambda>i. descriptors small_histogram ! i) ids \<and>
         length [[1::real]] \<le> length [0::nat, 0] \<and> distinct ids \<and>
         set ids \<subseteq> set (id_list small_histogram) \<and>
         set ids \<inter> set (concat (map list_id (bin small_histogram_sampled))) = {}" ..
    then have "sample_loop (bin small_histogram) [] [0, 0] = Inr (bin small_histogram_sampled, ids)"
      "[[1]] = map (\<lambda>i. descriptors small_histogram ! i) ids" "distinct ids"
      "set ids \<subseteq> set (id_list small_histogram)"
      by simp_all
    then show ?thesis by (intro exI [of _ ids] conjI)
  qed
  with reachable_small_histogram n r sample_small_histogram show ?thesis
    by (intro conjI)
qed

section \<open>Properties of the C15 builder\<close>

subsection \<open>The check of the parsed input\<close>

lemma key_lists:
  assumes "distinct ks" and "set ks \<subseteq> {a, b}"
  shows "ks = [] \<or> ks = [a] \<or> ks = [b] \<or> ks = [a, b] \<or> ks = [b, a]"
  using assms by (cases ks; cases "tl ks"; cases "tl (tl ks)") auto

lemma good_entry_keys:
  assumes "good_entry entry"
  shows "map fst entry \<in> set [[''type'', ''center''], [''center'', ''type'']] \<longleftrightarrow> complete_entry entry"
proof -
  from assms have "distinct (map fst entry)" "set (map fst entry) \<subseteq> {''center'', ''type''}"
    by (simp_all add: good_entry_def)
  from key_lists [OF this]
  show ?thesis
    unfolding complete_entry_def set_map [symmetric]
    by (elim disjE) simp_all
qed

lemma good_entry_update:
  "good_entry entry \<Longrightarrow> key \<in> {''center'', ''type''} \<Longrightarrow> good_entry (AList.update key v entry)"
  by (auto simp: good_entry_def update_keys distinct_update)

lemma set_update_subset: "set (AList.update k v al) \<subseteq> insert (k, v) (set al)"
  by (induction al) auto

lemma set_map_entry:
  "(k, e') \<in> set (AList.map_entry i f d) \<Longrightarrow> \<exists>e. (k, e) \<in> set d \<and> (e' = e \<or> e' = f e)"
  by (induction d) (auto split: if_splits)

lemma good_set_entry:
  assumes "\<forall>(k, e) \<in> set d. good_entry e" and "key \<in> {''center'', ''type''}"
  shows "\<forall>(k, e) \<in> set (set_entry i key v d). good_entry e"
proof -
  let ?d = "if i \<in> fst ` set d then d else AList.update i [] d"
  have gn: "good_entry []" by (simp add: good_entry_def)
  have 1: "\<forall>(k, e) \<in> set ?d. good_entry e"
  proof (clarify)
    fix k e assume "(k, e) \<in> set ?d"
    then have "(k, e) \<in> set d \<or> e = []"
      using set_update_subset [of i "[]" d] by (auto split: if_splits)
    then show "good_entry e" using assms(1) gn by auto
  qed
  show ?thesis
    unfolding set_entry_def
  proof (clarify)
    fix k e' assume "(k, e') \<in> set (AList.map_entry i (AList.update key v) ?d)"
    from set_map_entry [OF this] obtain e
      where "(k, e) \<in> set ?d" "e' = e \<or> e' = AList.update key v e" by blast
    with 1 good_entry_update [OF _ assms(2)] show "good_entry e'" by blast
  qed
qed

lemma good_centers_loop:
  "centers_loop f cs d = Inr d' \<Longrightarrow> \<forall>(k, e) \<in> set d. good_entry e \<Longrightarrow>
     \<forall>(k, e) \<in> set d'. good_entry e"
proof (induction cs arbitrary: d)
  case Nil
  then show ?case by simp
next
  case (Cons c cs)
  obtain i x where c: "c = (i, x)" by (cases c)
  from Cons.prems(1) obtain t arr where
    "centers_loop f cs (set_entry i ''center'' (center_array arr) d) = Inr d'"
    by (auto simp: c split: option.splits sum.splits)
  then show ?case
    by (rule Cons.IH) (rule good_set_entry [OF Cons.prems(2)], simp)
qed

lemma good_types_loop:
  "\<forall>(k, e) \<in> set d. good_entry e \<Longrightarrow> \<forall>(k, e) \<in> set (types_loop ts d). good_entry e"
proof (induction ts arbitrary: d)
  case Nil
  then show ?case by simp
next
  case (Cons c ts)
  obtain i x where c: "c = (i, x)" by (cases c)
  show ?case
    unfolding c types_loop.simps
    by (rule Cons.IH) (rule good_set_entry [OF Cons.prems], simp)
qed

lemma good_parse_loop:
  "parse_loop f xs d = Inr d' \<Longrightarrow> \<forall>(k, e) \<in> set d. good_entry e \<Longrightarrow>
     \<forall>(k, e) \<in> set d'. good_entry e"
proof (induction xs arbitrary: d)
  case Nil
  then show ?case by simp
next
  case (Cons x xs)
  from Cons.prems(1) obtain d1 where
    1: "(if tag x = ''Centers'' then centers_loop f (enumerate 0 (children x)) d else Inr d) = Inr d1"
    and 2: "parse_loop f xs (if tag x = ''Type'' then types_loop (enumerate 0 (children x)) d1 else d1) = Inr d'"
    by (auto split: sum.splits)
  from 1 Cons.prems(2) have "\<forall>(k, e) \<in> set d1. good_entry e"
    by (auto split: if_splits dest: good_centers_loop)
  then have "\<forall>(k, e) \<in> set (if tag x = ''Type'' then types_loop (enumerate 0 (children x)) d1 else d1). good_entry e"
    using good_types_loop [of d1] by simp
  with 2 show ?case by (rule Cons.IH)
qed

lemma check_out_parser_find:
  "\<forall>(k, e) \<in> set d. good_entry e \<Longrightarrow>
   check_out_parser d =
     (case find (\<lambda>(key, entry). \<not> complete_entry entry) d of
        None \<Rightarrow> Inr () | Some (key, entry) \<Rightarrow> Inl (TimeoutError key))"
proof (induction d)
  case Nil
  then show ?case by simp
next
  case (Cons p d)
  obtain k e where p: "p = (k, e)" by (cases p)
  from Cons.prems have g: "good_entry e" and rest: "\<forall>(k, e) \<in> set d. good_entry e"
    by (simp_all add: p)
  show ?case
    using Cons.IH [OF rest] good_entry_keys [OF g] by (simp add: p)
qed

lemma parse_small_xml:
  "parse_loop small_ints_of_text (children small_xml) [] = Inr small_center_dict"
  by (simp add: small_xml_def small_ints_of_text_def small_center_dict_def set_entry_def
      enumerate_eq_zip upt_conv_Cons)

text \<open>
  C8. For every center map parsed from the input file, \<open>check_out_parser\<close> raises, with
  the key of the first record that misses its type or its center, if and only if some
  record misses its type or its center; when every record has both, it returns and
  \<open>InputsParser\<close> leaves the parsed map as it is.
\<close>

theorem check_out_parser_raises_iff_entry_incomplete:
  assumes "parse_loop ints_of_text (children xml_root) [] = Inr d"
  shows "check_out_parser d =
           (case find (\<lambda>(key, entry). \<not> complete_entry entry) d of
              None \<Rightarrow> Inr () | Some (key, entry) \<Rightarrow> Inl (TimeoutError key)) \<and>
         ((\<exists>key entry. check_out_parser d = Inl (TimeoutError key) \<and>
                       (key, entry) \<in> set d \<and> \<not> complete_entry entry) \<longleftrightarrow>
          (\<exists>(key, entry) \<in> set d. \<not> complete_entry entry)) \<and>
         ((\<exists>e. check_out_parser d = Inl e) \<longleftrightarrow> (\<exists>(key, entry) \<in> set d. \<not> complete_entry entry)) \<and>
         ((\<forall>(key, entry) \<in> set d. complete_entry entry) \<longrightarrow>
            check_out_parser d = Inr () \<and> InputsParser ints_of_text xml_root = Inr d) \<and>
         (\<forall>e. check_out_parser d = Inl e \<longrightarrow> InputsParser ints_of_text xml_root = Inl e)"
proof -
  let ?bad = "\<lambda>(key, entry). \<not> complete_entry entry"
  have good: "\<forall>(k, e) \<in> set d. good_entry e"
    by (rule good_parse_loop [OF assms]) simp
  note F = check_out_parser_find [OF good]
  have none: "find ?bad d = None \<longleftrightarrow> (\<forall>(key, entry) \<in> set d. complete_entry entry)"
    by (auto simp: find_None_iff)
  have some: "(key, entry) \<in> set d \<and> \<not> complete_entry entry"
    if "find ?bad d = Some (key, entry)" for key entry
    using that by (auto simp: find_Some_iff in_set_conv_nth)
  have A: "(\<exists>key entry. check_out_parser d = Inl (TimeoutError key) \<and>
                       (key, entry) \<in> set d \<and> \<not> complete_entry entry) \<longleftrightarrow>
          (\<exists>(key, entry) \<in> set d. \<not> complete_entry entry)"
  proof
    assume "\<exists>key entry. check_out_parser d = Inl (TimeoutError key) \<and>
                       (key, entry) \<in> set d \<and> \<not> complete_entry entry"
    then show "\<exists>(key, entry) \<in> set d. \<not> complete_entry entry" by blast
  next
    assume "\<exists>(key, entry) \<in> set d. \<not> complete_entry entry"
    with none obtain key entry where s: "find ?bad d = Some (key, entry)"
      by (cases "find ?bad d") auto
    from some [OF s] F show "\<exists>key entry. check_out_parser d = Inl (TimeoutError key) \<and>
                       (key, entry) \<in> set d \<and> \<not> complete_entry entry"
      by (auto simp: s)
  qed
  have B: "(\<exists>e. check_out_parser d = Inl e) \<longleftrightarrow> (\<exists>(key, entry) \<in> set d. \<not> complete_entry entry)"
  proof (cases "find ?bad d")
    case None
    with none F show ?thesis by auto
  next
    case (Some p)
    obtain key entry where p: "p = (key, entry)" by (cases p)
    from some [OF Some [unfolded p]] F show ?thesis by (auto simp: Some p)
  qed
  have C: "(\<forall>(key, entry) \<in> set d. complete_entry entry) \<longrightarrow>
            check_out_parser d = Inr () \<and> InputsParser ints_of_text xml_root = Inr d"
    using F none by (auto simp: InputsParser_def assms)
  have E: "\<forall>e. check_out_parser d = Inl e \<longrightarrow> InputsParser ints_of_text xml_root = Inl e"
    by (simp add: InputsParser_def assms)
  show ?thesis by (rule conjI [OF F conjI [OF A conjI [OF B conjI [OF C E]]]])
qed

theorem check_out_parser_raises_iff_entry_incomplete_witness:
  "parse_loop small_ints_of_text (children small_xml) [] = Inr small_center_dict \<and>
   check_out_parser small_center_dict = Inl (TimeoutError 1) \<and>
   InputsParser small_ints_of_text small_xml = Inl (TimeoutError 1)"
proof -
  note T = check_out_parser_raises_iff_entry_incomplete [OF parse_small_xml]
  from T have "check_out_parser small_center_dict =
           (case find (\<lambda>(key, entry). \<not> complete_entry entry) small_center_dict of
              None \<Rightarrow> Inr () | Some (key, entry) \<Rightarrow> Inl (TimeoutError key))"
    by (rule conjunct1)
  then have 1: "check_out_parser small_center_dict = Inl (TimeoutError 1)"
    by (simp add: small_center_dict_def complete_entry_def)
  from T have "\<forall>e. check_out_parser small_center_dict = Inl e \<longrightarrow>
      InputsParser small_ints_of_text small_xml = Inl e"
    by (intro conjunct2 [OF conjunct2 [OF conjunct2 [OF conjunct2 [OF T]]]])
  with 1 have 2: "InputsParser small_ints_of_text small_xml = Inl (TimeoutError 1)" by simp
  from parse_small_xml 1 2 show ?thesis by (intro conjI)
qed

subsection \<open>Auxiliary facts on distances and the supercell\<close>

lemma fold_min_less_iff: "fold min ys (y::real) < t \<longleftrightarrow> list_ex (\<lambda>z. z < t) (y # ys)"
  unfolding fold_min_Min by (simp add: list_ex_iff Min_less_iff del: set_simps)

lemma vnorm_less_iff:
  "vnorm p < t \<longleftrightarrow> 0 < t \<and> (fst p)\<^sup>2 + (fst (snd p))\<^sup>2 + (snd (snd p))\<^sup>2 < t\<^sup>2"
proof -
  let ?x = "(fst p)\<^sup>2 + (fst (snd p))\<^sup>2 + (snd (snd p))\<^sup>2"
  have x: "0 \<le> ?x" by simp
  show ?thesis
  proof (cases "0 < t")
    case True
    then have "sqrt ?x < t \<longleftrightarrow> ?x < t\<^sup>2"
      using x by (metis less_eq_real_def real_sqrt_less_iff real_sqrt_abs abs_of_pos real_sqrt_unique power2_eq_square)
    then show ?thesis using True by (simp add: vnorm_def)
  next
    case False
    have "0 \<le> sqrt ?x" using x by simp
    with False show ?thesis unfolding vnorm_def by linarith
  qed
qed

lemma vnorm_tolerance:
  "vnorm p * 1000 < 1 \<longleftrightarrow> (fst p)\<^sup>2 + (fst (snd p))\<^sup>2 + (snd (snd p))\<^sup>2 < 1 / 1000000"
  using vnorm_less_iff [of p "1 / 1000"] by (simp add: power2_eq_square)

lemma idx2remove_loop_Cons:
  "cs \<noteq> [] \<Longrightarrow>
   idx2remove_loop tol cs ((idx, pos) # rest) acc =
     idx2remove_loop tol cs rest
       (if list_ex (\<lambda>c. vnorm (vsub c pos) < tol) cs then acc @ [idx] else acc)"
  by (cases cs) (simp_all add: np_amin_def fold_min_less_iff list_ex_iff)

lemma ToRemove_one_center:
  "ToRemoveCoordinate (octahedron one_center_builder) (centerC15 one_center_builder) =
     Inr [(6, 5, 5), (0, 0, -1), (0, 1, 0), (5, 4, 5), (1, 0, 0), (0, 0, -1)]"
  by (simp add: ToRemoveCoordinate_def one_center_builder_def small_typeOcta_def
      octahedral_offsets_def vadd_def coords_def Let_def upt_conv_Cons)

lemma build_cubic_supercell_draft:
  assumes "a0 (dict_param s) \<noteq> 0"
  shows "build_cubic_supercell SolidAse_BCC s True np sz =
           Inr (SolidAse_BCC (replicate 3 \<lceil>sz * scale_factor (dict_param s) / a0 (dict_param s)\<rceil>)
                  (element (dict_param s)),
                \<lceil>sz * scale_factor (dict_param s) / a0 (dict_param s)\<rceil>)"
  using assms by (simp add: build_cubic_supercell_def compute_cell_size_draft_def Let_def)

lemma sqrt3_le_2: "sqrt 3 \<le> 2"
  by (rule real_le_lsqrt) simp_all


subsection \<open>A cluster below the minimal size\<close>

text \<open>
  C6. For every call of \<open>AgnosticPerfectC15Cluster\<close> with a lattice parameter \<open>a0\<close> (a
  length, not zero) and a cluster size strictly below \<open>sqrt(3) * a0\<close>, the call returns,
  and it writes exactly one center: key 0 of \<open>centerC15\<close> becomes the center at
  \<open>ceil(0.5 * size)\<close> in each coordinate with the type \<open>type1\<close>, every other key is left
  as it was, and a builder without centers ends with this single center.
\<close>

theorem single_center_below_minimal_size:
  assumes "a0 (dict_param s) \<noteq> 0" and "cluster_size < sqrt 3 * a0 (dict_param s)"
  shows "\<exists>s' sz c.
           AgnosticPerfectC15Cluster SolidAse_BCC s cluster_size = Inr s' \<and>
           sz = \<lceil>sqrt 3 * a0 (dict_param s) * scale_factor (dict_param s) / a0 (dict_param s)\<rceil> \<and>
           c = real_of_int \<lceil>(1 / 2) * real_of_int sz\<rceil> \<and>
           size_cell s' = Some sz \<and>
           cubic_supercell_unit s' = Some (SolidAse_BCC (replicate 3 sz) (element (dict_param s))) \<and>
           centerC15 s' = AList.update 0 \<lparr>center = (c, c, c), type = ''type1''\<rparr> (centerC15 s) \<and>
           map_of (centerC15 s') 0 = Some \<lparr>center = (c, c, c), type = ''type1''\<rparr> \<and>
           fst ` set (centerC15 s') = insert 0 (fst ` set (centerC15 s)) \<and>
           (\<forall>k. k \<noteq> 0 \<longrightarrow> map_of (centerC15 s') k = map_of (centerC15 s) k) \<and>
           (centerC15 s = [] \<longrightarrow> centerC15 s' = [(0, \<lparr>center = (c, c, c), type = ''type1''\<rparr>)])"
proof -
  define sz where "sz = \<lceil>sqrt 3 * a0 (dict_param s) * scale_factor (dict_param s) / a0 (dict_param s)\<rceil>"
  define c where "c = real_of_int \<lceil>(1 / 2) * real_of_int sz\<rceil>"
  define v where "v = \<lparr>center = (c, c, c), type = ''type1''\<rparr>"
  define s' where "s' = s\<lparr>cubic_supercell_unit := Some (SolidAse_BCC (replicate 3 sz) (element (dict_param s))),
               size_cell := Some sz, centerC15 := AList.update 0 v (centerC15 s)\<rparr>"
  have run: "AgnosticPerfectC15Cluster SolidAse_BCC s cluster_size = Inr s'"
    using assms(2)
    unfolding s'_def v_def c_def sz_def
    by (simp add: AgnosticPerfectC15Cluster_def Let_def build_cubic_supercell_draft [OF assms(1)])
  have m: "map_of (AList.update 0 v (centerC15 s)) = (map_of (centerC15 s))(0 \<mapsto> v)"
    by (rule update_conv')
  have d: "fst ` set (AList.update 0 v (centerC15 s)) = insert 0 (fst ` set (centerC15 s))"
    by (simp add: dom_update)
  have "AgnosticPerfectC15Cluster SolidAse_BCC s cluster_size = Inr s' \<and>
           sz = \<lceil>sqrt 3 * a0 (dict_param s) * scale_factor (dict_param s) / a0 (dict_param s)\<rceil> \<and>
           c = real_of_int \<lceil>(1 / 2) * real_of_int sz\<rceil> \<and>
           size_cell s' = Some sz \<and>
           cubic_supercell_unit s' = Some (SolidAse_BCC (replicate 3 sz) (element (dict_param s))) \<and>
           centerC15 s' = AList.update 0 v (centerC15 s) \<and>
           map_of (centerC15 s') 0 = Some v \<and>
           fst ` set (centerC15 s') = insert 0 (fst ` set (centerC15 s)) \<and>
           (\<forall>k. k \<noteq> 0 \<longrightarrow> map_of (centerC15 s') k = map_of (centerC15 s) k) \<and>
           (centerC15 s = [] \<longrightarrow> centerC15 s' = [(0, v)])"
    using run sz_def c_def by (simp add: s'_def m d)
  then show ?thesis unfolding v_def by blast
qed

theorem single_center_below_minimal_size_witness:
  "a0 (dict_param (fresh_builder 1)) \<noteq> 0 \<and>
   (1::real) < sqrt 3 * a0 (dict_param (fresh_builder 1)) \<and>
   (\<exists>s'. AgnosticPerfectC15Cluster two_atom_BCC (fresh_builder 1) 1 = Inr s' \<and>
         centerC15 s' = [(0, \<lparr>center = (1, 1, 1), type = ''type1''\<rparr>)] \<and>
         size_cell s' = Some 2)"
proof -
  have a: "a0 (dict_param (fresh_builder 1)) \<noteq> 0"
    by (simp add: fresh_builder_def)
  have "1 < sqrt 3" by (rule real_less_rsqrt) simp
  then have b: "(1::real) < sqrt 3 * a0 (dict_param (fresh_builder 1))"
    by (simp add: fresh_builder_def)
  have "1 < sqrt 3" "sqrt 3 \<le> 2" by (rule real_less_rsqrt, simp) (rule sqrt3_le_2)
  then have sz: "\<lceil>sqrt 3\<rceil> = 2" by (intro ceiling_unique) simp_all
  from single_center_below_minimal_size [OF a b, of two_atom_BCC]
  obtain s' sz c where
    "AgnosticPerfectC15Cluster two_atom_BCC (fresh_builder 1) 1 = Inr s'"
    "sz = \<lceil>sqrt 3 * a0 (dict_param (fresh_builder 1)) * scale_factor (dict_param (fresh_builder 1))
            / a0 (dict_param (fresh_builder 1))\<rceil>"
    "c = real_of_int \<lceil>(1 / 2) * real_of_int sz\<rceil>"
    "size_cell s' = Some sz"
    "centerC15 s' = AList.update 0 \<lparr>center = (c, c, c), type = ''type1''\<rparr> (centerC15 (fresh_builder 1))"
    by blast
  then have "AgnosticPerfectC15Cluster two_atom_BCC (fresh_builder 1) 1 = Inr s' \<and>
         centerC15 s' = [(0, \<lparr>center = (1, 1, 1), type = ''type1''\<rparr>)] \<and>
         size_cell s' = Some 2"
    by (simp add: fresh_builder_def sz)
  then have "\<exists>s'. AgnosticPerfectC15Cluster two_atom_BCC (fresh_builder 1) 1 = Inr s' \<and>
         centerC15 s' = [(0, \<lparr>center = (1, 1, 1), type = ''type1''\<rparr>)] \<and>
         size_cell s' = Some 2" ..
  with a b show ?thesis by (intro conjI)
qed

text \<open>
  A lattice parameter of zero is not a length: the minimal size is then 0, and for a
  negative cluster size the size of the supercell divides by zero.
\<close>

lemma zero_lattice_parameter_raises:
  "(-1::real) < sqrt 3 * a0 (dict_param (fresh_builder 0)) \<and>
   AgnosticPerfectC15Cluster two_atom_BCC (fresh_builder 0) (-1) = Inl ValueError"
  by (simp add: AgnosticPerfectC15Cluster_def fresh_builder_def build_cubic_supercell_def
      compute_cell_size_draft_def Let_def)

subsection \<open>A cluster of at least the minimal size\<close>

text \<open>
  C4. The specified chain of centers is never built: for a positive lattice parameter
  and a cluster size of at least \<open>sqrt(3) * a0\<close>, the number of centers to place is at
  least 4, so the loop is entered, and its first step raises \<open>TypeError\<close>, because the
  link list of \<open>explorated_dict\<close> is the \<open>None\<close> that \<open>random.shuffle\<close> returns.
\<close>

theorem multi_cluster_branch_raises:
  assumes "0 < a0 (dict_param s)" and "sqrt 3 * a0 (dict_param s) \<le> cluster_size"
    and "octahedron s ''type1'' = Some octa"
  shows "AgnosticPerfectC15Cluster SolidAse_BCC s cluster_size = Inl TypeError"
proof -
  let ?m = "sqrt 3 * a0 (dict_param s)"
  have a: "a0 (dict_param s) \<noteq> 0" using assms(1) by simp
  have mpos: "0 < ?m" using assms(1) by simp
  have "1 \<le> cluster_size / ?m" using mpos assms(2) by (simp add: pos_le_divide_eq)
  then have "1 \<le> \<lceil>cluster_size / ?m\<rceil>" by linarith
  then have "2 \<le> \<lceil>cluster_size / ?m\<rceil> + 1" by simp
  then have "2 * 2 \<le> (\<lceil>cluster_size / ?m\<rceil> + 1) * (\<lceil>cluster_size / ?m\<rceil> + 1)"
    by (intro mult_mono) simp_all
  then have nb: "4 \<le> (\<lceil>cluster_size / ?m\<rceil> + 1)\<^sup>2" by (simp add: power2_eq_square)
  then have "1 < nat ((\<lceil>cluster_size / ?m\<rceil> + 1)\<^sup>2)" by linarith
  then obtain rest where r: "[1..<nat ((\<lceil>cluster_size / ?m\<rceil> + 1)\<^sup>2)] = 1 # rest"
    by (auto simp: upt_conv_Cons)
  have num: "compute_number_perfect_C15 ?m cluster_size = Inr ((\<lceil>cluster_size / ?m\<rceil> + 1)\<^sup>2)"
    using a by (simp add: compute_number_perfect_C15_def)
  have lk: "shuffled_link (octahedron s) ''type1'' = Inr None"
    by (simp add: shuffled_link_def assms(3))
  show ?thesis
    using assms(2)
    by (simp add: AgnosticPerfectC15Cluster_def Let_def build_cubic_supercell_draft [OF a]
        num lk r not_less del: One_nat_def)
qed

theorem multi_cluster_branch_raises_witness:
  "0 < a0 (dict_param (fresh_builder 1)) \<and> sqrt 3 * a0 (dict_param (fresh_builder 1)) \<le> 2 \<and>
   octahedron (fresh_builder 1) ''type1'' =
     Some \<lparr>link = [(1, 0, 0)], atom = [(1, 0, 0)], gaos = [[(0, 0, 0)]],
           removeatom = octahedral_offsets\<rparr> \<and>
   AgnosticPerfectC15Cluster two_atom_BCC (fresh_builder 1) 2 = Inl TypeError"
proof -
  have a: "0 < a0 (dict_param (fresh_builder 1))"
    and c: "octahedron (fresh_builder 1) ''type1'' =
     Some \<lparr>link = [(1, 0, 0)], atom = [(1, 0, 0)], gaos = [[(0, 0, 0)]],
           removeatom = octahedral_offsets\<rparr>"
    by (simp_all add: fresh_builder_def small_typeOcta_def)
  have b: "sqrt 3 * a0 (dict_param (fresh_builder 1)) \<le> 2"
    using sqrt3_le_2 by (simp add: fresh_builder_def)
  from multi_cluster_branch_raises [OF a b c, of two_atom_BCC] a b c
  show ?thesis by (intro conjI)
qed


subsection \<open>Expansion and deduplication\<close>

lemma add_position_iff:
  "add_position tolerance accepted p =
     (if \<forall>q \<in> set accepted. tolerance \<le> vnorm (vsub q p) then accepted @ [p] else accepted)"
proof (cases accepted)
  case Nil
  then show ?thesis by simp
next
  case (Cons q qs)
  have "fold min (map (\<lambda>r. vnorm (vsub r p)) qs) (vnorm (vsub q p)) < tolerance \<longleftrightarrow>
        (\<exists>r \<in> set (q # qs). vnorm (vsub r p) < tolerance)"
    unfolding fold_min_less_iff by (auto simp: list_ex_iff)
  then show ?thesis
    unfolding Cons by (auto simp: not_le)
qed

lemma gaos_loop_foldl:
  "gaos_loop tol c tetra gs acc =
     foldl (add_position tol) acc (map (\<lambda>g. vadd (vadd c tetra) (vscale (1 / 2) g)) gs)"
  by (induction gs arbitrary: acc) simp_all

lemma tetra_loop_foldl:
  "tetra_loop tol c gs ts acc =
     (if \<forall>p \<in> set ts. fst p < length gs
      then Inr (foldl (add_position tol) acc
             (concat (map (\<lambda>(t, tetra). map (\<lambda>g. vadd (vadd c tetra) (vscale (1 / 2) g)) (gs ! t)) ts)))
      else Inl IndexError)"
proof (induction ts arbitrary: acc)
  case Nil
  then show ?case by simp
next
  case (Cons p ts)
  obtain t tetra where p: "p = (t, tetra)" by (cases p)
  show ?case
    unfolding p by (simp add: Cons.IH gaos_loop_foldl)
qed

lemma enumerate_indices_bounded:
  "(\<forall>p \<in> set (enumerate 0 xs). fst p < m) \<longleftrightarrow> length xs \<le> m"
proof
  assume a: "\<forall>p \<in> set (enumerate 0 xs). fst p < m"
  show "length xs \<le> m"
  proof (rule ccontr)
    assume "\<not> length xs \<le> m"
    then have "m < length xs" by simp
    then have "(m, xs ! m) \<in> set (enumerate 0 xs)" by (simp add: in_set_enumerate_eq)
    with a show False by force
  qed
next
  assume "length xs \<le> m"
  then show "\<forall>p \<in> set (enumerate 0 xs). fst p < m"
    by (auto simp: in_set_enumerate_eq)
qed

lemma C15_center_loop_sites:
  "C15_center_loop tol typeOcta cs acc =
     (case C15_sites typeOcta cs of
        Inl e \<Rightarrow> Inl e
      | Inr sites \<Rightarrow> Inr (foldl (add_position tol) acc sites))"
proof (induction cs arbitrary: acc)
  case Nil
  then show ?case by simp
next
  case (Cons kc cs)
  obtain k c where kc: "kc = (k, c)" by (cases kc)
  show ?case
    unfolding kc
    by (simp add: Cons.IH tetra_loop_foldl enumerate_indices_bounded center_sites_def not_le
        split: option.splits sum.splits)
qed

lemma far_apart_add_position:
  assumes "far_apart tol acc"
  shows "far_apart tol (add_position tol acc p)"
proof (cases "\<forall>q \<in> set acc. tol \<le> vnorm (vsub q p)")
  case False
  then show ?thesis using assms by (auto simp: add_position_iff)
next
  case True
  have "tol \<le> vnorm (vsub ((acc @ [p]) ! i) ((acc @ [p]) ! j))"
    if "i < j" "j < length (acc @ [p])" for i j
  proof (cases "j < length acc")
    case True
    with that assms show ?thesis by (simp add: far_apart_def nth_append)
  next
    case False
    with that have j: "j = length acc" and i: "i < length acc" by simp_all
    from i have "acc ! i \<in> set acc" by simp
    with \<open>\<forall>q \<in> set acc. tol \<le> vnorm (vsub q p)\<close> show ?thesis
      by (simp add: j i nth_append)
  qed
  then show ?thesis using True by (simp add: add_position_iff far_apart_def)
qed

lemma far_apart_foldl:
  "far_apart tol acc \<Longrightarrow> far_apart tol (foldl (add_position tol) acc sites)"
  by (induction sites arbitrary: acc) (simp_all add: far_apart_add_position)

lemma covered_foldl:
  "set acc \<subseteq> set (foldl (add_position tol) acc sites) \<and>
   set (foldl (add_position tol) acc sites) \<subseteq> set acc \<union> set sites"
proof (induction sites arbitrary: acc)
  case Nil
  then show ?case by simp
next
  case (Cons p sites)
  have "set acc \<subseteq> set (add_position tol acc p)" "set (add_position tol acc p) \<subseteq> insert p (set acc)"
    by (auto simp: add_position_iff)
  with Cons [of "add_position tol acc p"] show ?case by auto
qed

lemma vsub_self: "vsub p p = (0, 0, 0)"
  by (simp add: vsub_def)

lemma sites_coincident:
  "C15_sites (octahedron coincident_builder) (centerC15 coincident_builder) = Inr [(1, 0, 0), (1, 0, 0)]"
  by (simp add: coincident_builder_def small_typeOcta_def center_sites_def enumerate_eq_zip
      vadd_def vscale_def)

text \<open>
  C5. In \<open>build_C15_system\<close> a position is appended to the accepted list if and only if
  its distance to every accepted position is at least the tolerance; the function
  returns the positions accepted, in order, from the enumerated sites (center +
  tetrahedron offset + half the gaos offset), which are pairwise at least the tolerance
  apart; of two sites closer than the tolerance, only the first is accepted.
\<close>

theorem build_C15_system_accepts_far_positions:
  "add_position tolerance accepted p =
     (if \<forall>q \<in> set accepted. tolerance \<le> vnorm (vsub q p) then accepted @ [p] else accepted) \<and>
   build_C15_system s tolerance =
     (case C15_sites (octahedron s) (centerC15 s) of
        Inl e \<Rightarrow> Inl e
      | Inr sites \<Rightarrow>
          Inr \<lparr>positions = foldl (add_position tolerance) [] sites,
               cell = replicate 3 (0, 0, 0), defect = None\<rparr>) \<and>
   foldl (add_position tolerance) [] (before @ [p]) =
     add_position tolerance (foldl (add_position tolerance) [] before) p \<and>
   far_apart tolerance (foldl (add_position tolerance) [] sites) \<and>
   set (foldl (add_position tolerance) [] sites) \<subseteq> set sites \<and>
   (vnorm (vsub p q) < tolerance \<longrightarrow> foldl (add_position tolerance) [] [p, q] = [p])"
proof -
  have 1: "build_C15_system s tolerance =
     (case C15_sites (octahedron s) (centerC15 s) of
        Inl e \<Rightarrow> Inl e
      | Inr sites \<Rightarrow>
          Inr \<lparr>positions = foldl (add_position tolerance) [] sites,
               cell = replicate 3 (0, 0, 0), defect = None\<rparr>)"
    by (simp add: build_C15_system_def C15_center_loop_sites split: sum.splits)
  have 2: "foldl (add_position tolerance) [] (before @ [p]) =
     add_position tolerance (foldl (add_position tolerance) [] before) p"
    by simp
  have 3: "far_apart tolerance (foldl (add_position tolerance) [] sites)"
    by (rule far_apart_foldl) (simp add: far_apart_def)
  have 4: "set (foldl (add_position tolerance) [] sites) \<subseteq> set sites"
    using covered_foldl [of "[]" tolerance sites] by simp
  have 5: "vnorm (vsub p q) < tolerance \<longrightarrow> foldl (add_position tolerance) [] [p, q] = [p]"
    by simp
  show ?thesis
    by (rule conjI [OF add_position_iff conjI [OF 1 conjI [OF 2 conjI [OF 3 conjI [OF 4 5]]]]])
qed

theorem build_C15_system_accepts_far_positions_witness:
  "vnorm (vsub (1, 0, 0) (1, 0, 0)) < 1 / 1000 \<and>
   foldl (add_position (1 / 1000)) [] [(1, 0, 0), (1, 0, 0)] = [(1, 0, 0)] \<and>
   C15_sites (octahedron coincident_builder) (centerC15 coincident_builder) =
     Inr [(1, 0, 0), (1, 0, 0)] \<and>
   build_C15_system coincident_builder (1 / 1000) =
     Inr \<lparr>positions = [(1, 0, 0)], cell = replicate 3 (0, 0, 0), defect = None\<rparr>"
proof -
  have a: "vnorm (vsub (1, 0, 0) (1, 0, 0)) < 1 / 1000"
    by (simp add: vsub_self vnorm_def)
  note T = build_C15_system_accepts_far_positions
    [of "1 / 1000" "[]" "(1, 0, 0)" coincident_builder "[]" "[]" "(1, 0, 0)"]
  from T have imp: "vnorm (vsub (1, 0, 0) (1, 0, 0)) < 1 / 1000 \<longrightarrow>
      foldl (add_position (1 / 1000)) [] [(1, 0, 0), (1, 0, 0)] = [(1, 0, 0)]"
    by (intro conjunct2 [OF conjunct2 [OF conjunct2 [OF conjunct2 [OF conjunct2 [OF T]]]]])
  have b: "foldl (add_position (1 / 1000)) [] [(1, 0, 0), (1, 0, 0)] = [(1, 0, 0)]"
    by (rule mp [OF imp a])
  from T have "build_C15_system coincident_builder (1 / 1000) =
     (case C15_sites (octahedron coincident_builder) (centerC15 coincident_builder) of
        Inl e \<Rightarrow> Inl e
      | Inr sites \<Rightarrow>
          Inr \<lparr>positions = foldl (add_position (1 / 1000)) [] sites,
               cell = replicate 3 (0, 0, 0), defect = None\<rparr>)"
    by (intro conjunct1 [OF conjunct2 [OF T]])
  then have c: "build_C15_system coincident_builder (1 / 1000) =
     Inr \<lparr>positions = [(1, 0, 0)], cell = replicate 3 (0, 0, 0), defect = None\<rparr>"
    unfolding sites_coincident sum.case b .
  from a b sites_coincident c show ?thesis by (intro conjI)
qed


subsection \<open>Removing atoms\<close>

lemma idx2remove_one_center:
  "idx2remove_loop (1 / 1000) [(6, 5, 5), (0, 0, -1), (0, 1, 0), (5, 4, 5), (1, 0, 0), (0, 0, -1)]
     (enumerate 0 [(6, 0, 0), (0, 1, 0), (9, 9, 9)]) [] = Inr [1]"
  by (simp add: idx2remove_loop_Cons vnorm_tolerance vsub_def
      del: idx2remove_loop.simps(2))

lemma remove_one_center:
  "remove_atoms_in_system one_center_builder three_atoms (1 / 1000) =
     Inr \<lparr>positions = [(6, 0, 0), (9, 9, 9)],
          cell = [(10, 0, 0), (0, 10, 0), (0, 0, 10)], defect = None\<rparr>"
proof -
  have "idx2remove_loop (1 / 1000)
          [(6, 5, 5), (0, 0, -1), (0, 1, 0), (5, 4, 5), (1, 0, 0), (0, 0, -1)]
          (enumerate 0 (positions three_atoms)) [] = Inr [1]"
    using idx2remove_one_center by (simp only: three_atoms_def Atoms.simps)
  then show ?thesis
    unfolding remove_atoms_in_system_def ToRemove_one_center
    by (simp add: delete_atoms_def three_atoms_def upt_conv_Cons del: enumerate_simps)
qed

text \<open>
  C7 fails on the code. For the single center at \<open>(5, 0, 0)\<close> with the octahedral removal
  offsets, the removal coordinates of the specification are the six neighbours of the
  center, but \<open>reshape((3, 6)).T\<close> mixes their components: the atom at the removal
  coordinate \<open>(6, 0, 0)\<close> is kept, and the atom at \<open>(0, 1, 0)\<close>, far from every removal
  coordinate, is removed.
\<close>

theorem remove_atoms_in_system_mixes_coordinates:
  "removal_coordinates (octahedron one_center_builder) (centerC15 one_center_builder) =
     [(6, 0, 0), (5, 1, 0), (5, 0, 1), (4, 0, 0), (5, -1, 0), (5, 0, -1)] \<and>
   ToRemoveCoordinate (octahedron one_center_builder) (centerC15 one_center_builder) =
     Inr [(6, 5, 5), (0, 0, -1), (0, 1, 0), (5, 4, 5), (1, 0, 0), (0, 0, -1)] \<and>
   positions three_atoms = [(6, 0, 0), (0, 1, 0), (9, 9, 9)] \<and>
   remove_atoms_in_system one_center_builder three_atoms (1 / 1000) =
     Inr \<lparr>positions = [(6, 0, 0), (9, 9, 9)],
          cell = [(10, 0, 0), (0, 10, 0), (0, 0, 10)], defect = None\<rparr>"
proof -
  have 1: "removal_coordinates (octahedron one_center_builder) (centerC15 one_center_builder) =
     [(6, 0, 0), (5, 1, 0), (5, 0, 1), (4, 0, 0), (5, -1, 0), (5, 0, -1)]"
    by (simp add: removal_coordinates_def one_center_builder_def small_typeOcta_def
        octahedral_offsets_def vadd_def)
  have 3: "positions three_atoms = [(6, 0, 0), (0, 1, 0), (9, 9, 9)]"
    by (simp add: three_atoms_def)
  show ?thesis
    by (rule conjI [OF 1 conjI [OF ToRemove_one_center conjI [OF 3 remove_one_center]]])
qed

subsection \<open>The rescaling of the merged system\<close>

lemma powr_not_cube_root:
  assumes "0 < x" and "x \<noteq> 1"
  shows "x powr (3333 / 10000) \<noteq> root 3 x"
proof
  assume "x powr (3333 / 10000) = root 3 x"
  also have "root 3 x = x powr (1 / 3)"
    using assms(1) by (simp add: root_powr_inverse)
  finally have "(3333 / 10000 :: real) = 1 / 3"
    using assms by (simp add: powr_inj)
  then show False by simp
qed

lemma remove_atoms_keeps_cell:
  "remove_atoms_in_system s system tol = Inr r \<Longrightarrow> cell r = cell system"
  by (auto simp: remove_atoms_in_system_def delete_atoms_def split: sum.splits)

text \<open>
  C9 fails on the code in the exponent. When \<open>BuildC15Cluster\<close> returns, the cell of the
  merged system is the cell of the supercell scaled by \<open>lenght_scale * a0\<close>, where
  \<open>lenght_scale\<close> is the ratio of the merged atom count to the atom count of the
  supercell before removal, raised to the power 0.3333; unless the two counts are
  equal, this is not the cube root of the ratio.
\<close>

theorem BuildC15Cluster_scale_exponent:
  assumes "BuildC15Cluster s = Inr s'"
  shows "\<exists>unit merged f.
           cubic_supercell_unit s = Some unit \<and> C15_system s' = Some merged \<and>
           0 < length (positions unit) \<and>
           f = (real (length (positions merged)) / real (length (positions unit))) powr (3333 / 10000) \<and>
           cell merged = map (vscale (f * a0 (dict_param s))) (cell unit) \<and>
           (0 < length (positions merged) \<and> length (positions merged) \<noteq> length (positions unit) \<longrightarrow>
              f \<noteq> root 3 (real (length (positions merged)) / real (length (positions unit))))"
proof -
  from assms obtain C15_atoms extra unit bulk where
    u: "cubic_supercell_unit s = Some unit"
    and b: "remove_atoms_in_system s unit (1 / 1000) = Inr bulk"
    and n: "length (positions unit) \<noteq> 0"
    and s': "s' = s\<lparr>extra_atom := Some (extra\<lparr>defect := Some (replicate (length (positions extra)) 1)\<rparr>),
                    cubic_supercell_unit := Some (bulk\<lparr>defect := Some (replicate (length (positions bulk)) 0)\<rparr>),
                    C15_system := Some (set_cell_scaled
                      (atoms_add (bulk\<lparr>defect := Some (replicate (length (positions bulk)) 0)\<rparr>)
                                 (extra\<lparr>defect := Some (replicate (length (positions extra)) 1)\<rparr>))
                      (lenght_scale (length (positions (atoms_add (bulk\<lparr>defect := Some (replicate (length (positions bulk)) 0)\<rparr>)
                                 (extra\<lparr>defect := Some (replicate (length (positions extra)) 1)\<rparr>))))
                         (length (positions unit)) * a0 (dict_param s)))\<rparr>"
    unfolding BuildC15Cluster_def Let_def
    by (auto split: sum.splits option.splits if_splits)
  define pre where "pre = atoms_add (bulk\<lparr>defect := Some (replicate (length (positions bulk)) 0)\<rparr>)
                                 (extra\<lparr>defect := Some (replicate (length (positions extra)) 1)\<rparr>)"
  define f where "f = lenght_scale (length (positions pre)) (length (positions unit))"
  define merged where "merged = set_cell_scaled pre (f * a0 (dict_param s))"
  have sys: "C15_system s' = Some merged"
    by (simp add: s' merged_def f_def pre_def)
  have len: "length (positions merged) = length (positions pre)"
    by (simp add: merged_def set_cell_scaled_def)
  have fdef: "f = (real (length (positions merged)) / real (length (positions unit))) powr (3333 / 10000)"
    by (simp add: f_def lenght_scale_def len)
  have "cell pre = cell unit"
    using remove_atoms_keeps_cell [OF b] by (simp add: pre_def atoms_add_def)
  then have cl: "cell merged = map (vscale (f * a0 (dict_param s))) (cell unit)"
    by (simp add: merged_def set_cell_scaled_def)
  have ne: "f \<noteq> root 3 (real (length (positions merged)) / real (length (positions unit)))"
    if "0 < length (positions merged)" "length (positions merged) \<noteq> length (positions unit)"
    unfolding fdef
    by (rule powr_not_cube_root) (use that n in simp_all)
  from u sys n fdef cl ne show ?thesis
    by (intro exI [of _ unit] exI [of _ merged] exI [of _ f]) simp
qed

lemma build_one_center:
  "build_C15_system one_center_builder (1 / 1000) =
     Inr \<lparr>positions = [(6, 0, 0)], cell = replicate 3 (0, 0, 0), defect = None\<rparr>"
  by (simp add: build_C15_system_def one_center_builder_def small_typeOcta_def enumerate_eq_zip
      vadd_def vscale_def)

lemma remove_one_center_site:
  "remove_atoms_in_system one_center_builder
     \<lparr>positions = [(6, 0, 0)], cell = replicate 3 (0, 0, 0), defect = None\<rparr> (1 / 1000) =
   Inr \<lparr>positions = [(6, 0, 0)], cell = replicate 3 (0, 0, 0), defect = None\<rparr>"
proof -
  have "idx2remove_loop (1 / 1000)
          [(6, 5, 5), (0, 0, -1), (0, 1, 0), (5, 4, 5), (1, 0, 0), (0, 0, -1)]
          (enumerate 0 [(6, 0, 0)]) [] = Inr []"
    by (simp add: idx2remove_loop_Cons vnorm_tolerance vsub_def del: idx2remove_loop.simps(2))
  then show ?thesis
    unfolding remove_atoms_in_system_def ToRemove_one_center
    by (simp add: delete_atoms_def del: enumerate_simps)
qed

lemma remove_one_center_bulk:
  "remove_atoms_in_system one_center_builder two_atom_cell (1 / 1000) = Inr two_atom_cell"
proof -
  have "idx2remove_loop (1 / 1000)
          [(6, 5, 5), (0, 0, -1), (0, 1, 0), (5, 4, 5), (1, 0, 0), (0, 0, -1)]
          (enumerate 0 (positions two_atom_cell)) [] = Inr []"
    unfolding two_atom_cell_def
    by (simp add: idx2remove_loop_Cons vnorm_tolerance vsub_def power2_eq_square
        del: idx2remove_loop.simps(2))
  then show ?thesis
    unfolding remove_atoms_in_system_def ToRemove_one_center
    by (simp add: delete_atoms_def two_atom_cell_def upt_conv_Cons del: enumerate_simps)
qed

lemma BuildC15Cluster_one_center: "BuildC15Cluster one_center_builder = Inr one_center_result"
proof -
  have cu: "cubic_supercell_unit one_center_builder = Some two_atom_cell"
    and a: "a0 (dict_param one_center_builder) = 1"
    by (simp_all add: one_center_builder_def)
  show ?thesis
    by (simp add: BuildC15Cluster_def build_one_center remove_one_center_site cu
          remove_one_center_bulk a Let_def)
       (simp add: atoms_add_def two_atom_cell_def one_center_result_def numeral_3_eq_3
          numeral_2_eq_2)
qed

theorem BuildC15Cluster_scale_exponent_witness:
  "BuildC15Cluster one_center_builder = Inr one_center_result \<and>
   cubic_supercell_unit one_center_builder = Some two_atom_cell \<and>
   (\<exists>merged. C15_system one_center_result = Some merged \<and> length (positions merged) = 3 \<and>
      length (positions two_atom_cell) = 2 \<and>
      cell merged = map (vscale ((3 / 2) powr (3333 / 10000) * a0 (dict_param one_center_builder)))
                      (cell two_atom_cell) \<and>
      (3 / 2) powr (3333 / 10000) \<noteq> root 3 (3 / 2))"
proof -
  have cu: "cubic_supercell_unit one_center_builder = Some two_atom_cell"
    by (simp add: one_center_builder_def)
  from BuildC15Cluster_scale_exponent [OF BuildC15Cluster_one_center]
  obtain unit merged f where
    u: "cubic_supercell_unit one_center_builder = Some unit"
    and m: "C15_system one_center_result = Some merged"
    and f: "f = (real (length (positions merged)) / real (length (positions unit))) powr (3333 / 10000)"
    and c: "cell merged = map (vscale (f * a0 (dict_param one_center_builder))) (cell unit)"
    and ne: "0 < length (positions merged) \<and> length (positions merged) \<noteq> length (positions unit) \<longrightarrow>
              f \<noteq> root 3 (real (length (positions merged)) / real (length (positions unit)))"
    by blast
  from u cu have unit: "unit = two_atom_cell" by simp
  have l2: "length (positions two_atom_cell) = 2" by (simp add: two_atom_cell_def)
  from m have l3: "length (positions merged) = 3"
    by (auto simp: one_center_result_def set_cell_scaled_def)
  from f have f': "f = (3 / 2) powr (3333 / 10000)" by (simp add: unit l2 l3)
  from ne have n': "(3 / 2) powr (3333 / 10000) \<noteq> root 3 (3 / 2)"
    unfolding f' unit l2 l3 by simp
  from c have c': "cell merged = map (vscale ((3 / 2) powr (3333 / 10000) * a0 (dict_param one_center_builder)))
                      (cell two_atom_cell)"
    unfolding f' unit .
  from m l3 l2 c' n' have "\<exists>merged. C15_system one_center_result = Some merged \<and> length (positions merged) = 3 \<and>
      length (positions two_atom_cell) = 2 \<and>
      cell merged = map (vscale ((3 / 2) powr (3333 / 10000) * a0 (dict_param one_center_builder)))
                      (cell two_atom_cell) \<and>
      (3 / 2) powr (3333 / 10000) \<noteq> root 3 (3 / 2)"
    by (intro exI [of _ merged] conjI)
  with BuildC15Cluster_one_center cu show ?thesis by (intro conjI)
qed


end
